theory Spec2Isabelle
  imports Main "HOL-Library.AList"
begin

section \<open>JavaScript values\<close>

text \<open>
  The helpers of \<^verbatim>\<open>frontend/src/helpers/cbom.js\<close> work on the values that
  \<^verbatim>\<open>JSON.parse\<close> produces, and on \<^verbatim>\<open>undefined\<close> (an absent property, an absent
  argument). An object is an association list in insertion order: a property read finds the
  first entry of a key, a property write replaces that entry in place or appends a new one.
  Finite numbers are opaque to every function modelled here (they are compared, stored and
  copied, never computed with), so they are integers. The numbers that JavaScript treats apart
  have constructors of their own: negative zero (\<^verbatim>\<open>JSON.parse("-0")\<close>), the two infinities
  (\<open>JInfinity True\<close> is \<^verbatim>\<open>Infinity\<close>, which \<^verbatim>\<open>JSON.parse("1e400")\<close> gives, and
  \<open>JInfinity False\<close> is \<^verbatim>\<open>-Infinity\<close>) and \<^verbatim>\<open>NaN\<close>. Strings are lists of characters.
\<close>

datatype json =
    JUndef
  | JNull
  | JBool bool
  | JNum int
  | JNegZero
  | JInfinity bool
  | JNaN
  | JStr string
  | JArr "json list"
  | JObj "(string \<times> json) list"

datatype error = TypeError

text \<open>Decimal digits of a natural number, as a template literal prints an index or a size.\<close>

definition digit :: "nat \<Rightarrow> char" where
  "digit n = ''0123456789'' ! n"

function dec :: "nat \<Rightarrow> string" where
  "dec n = (if n < 10 then [digit n] else dec (n div 10) @ [digit (n mod 10)])"
  by pat_completeness auto
termination
  by (relation "measure id") auto

declare dec.simps [simp del]

text \<open>\<^verbatim>\<open>!v\<close> is \<open>\<not> truthy v\<close>; \<^verbatim>\<open>typeof v\<close>; \<^verbatim>\<open>Array.isArray(v)\<close>.\<close>

fun truthy :: "json \<Rightarrow> bool" where
  "truthy JUndef = False"
| "truthy JNull = False"
| "truthy (JBool b) = b"
| "truthy (JNum n) = (n \<noteq> 0)"
| "truthy JNegZero = False"
| "truthy (JInfinity b) = True"
| "truthy JNaN = False"
| "truthy (JStr s) = (s \<noteq> [])"
| "truthy (JArr xs) = True"
| "truthy (JObj kvs) = True"

fun typeof :: "json \<Rightarrow> string" where
  "typeof JUndef = ''undefined''"
| "typeof JNull = ''object''"
| "typeof (JBool b) = ''boolean''"
| "typeof (JNum n) = ''number''"
| "typeof JNegZero = ''number''"
| "typeof (JInfinity b) = ''number''"
| "typeof JNaN = ''number''"
| "typeof (JStr s) = ''string''"
| "typeof (JArr xs) = ''object''"
| "typeof (JObj kvs) = ''object''"

fun isArray :: "json \<Rightarrow> bool" where
  "isArray (JArr xs) = True"
| "isArray v = False"

text \<open>The elements of an array value (\<^verbatim>\<open>forEach\<close>, \<^verbatim>\<open>for ... of\<close>); used behind
  \<^verbatim>\<open>Array.isArray\<close> only.\<close>

fun elems :: "json \<Rightarrow> json list" where
  "elems (JArr xs) = xs"
| "elems v = []"

text \<open>
  The own keys of a value: those of an object; the indices and \<^verbatim>\<open>length\<close> of an array or
  of a string. \<^verbatim>\<open>Object.hasOwn(v, k)\<close> raises a TypeError on \<^verbatim>\<open>null\<close> and
  \<^verbatim>\<open>undefined\<close> and is false on a number or a boolean.
\<close>

fun hasOwn :: "json \<Rightarrow> string \<Rightarrow> error + bool" where
  "hasOwn JUndef k = Inl TypeError"
| "hasOwn JNull k = Inl TypeError"
| "hasOwn (JBool b) k = Inr False"
| "hasOwn (JNum n) k = Inr False"
| "hasOwn JNegZero k = Inr False"
| "hasOwn (JInfinity b) k = Inr False"
| "hasOwn JNaN k = Inr False"
| "hasOwn (JStr s) k = Inr (k = ''length'' \<or> k \<in> set (map dec [0..<length s]))"
| "hasOwn (JArr xs) k = Inr (k = ''length'' \<or> k \<in> set (map dec [0..<length xs]))"
| "hasOwn (JObj kvs) k = Inr (k \<in> set (map fst kvs))"

text \<open>
  A property read \<^verbatim>\<open>v.k\<close> or \<^verbatim>\<open>v[k]\<close>. On \<^verbatim>\<open>null\<close> and \<^verbatim>\<open>undefined\<close> JavaScript raises;
  every read below stands behind a guard (\<^verbatim>\<open>Object.hasOwn\<close>, or truthiness together with
  \<^verbatim>\<open>typeof v === "object"\<close>) that has excluded these two, so \<open>fld\<close> is never applied
  to them.
\<close>

fun index_of :: "string \<Rightarrow> nat \<Rightarrow> nat option" where
  "index_of k n = (case filter (\<lambda>i. dec i = k) [0..<n] of [] \<Rightarrow> None | i # _ \<Rightarrow> Some i)"

fun fld :: "json \<Rightarrow> string \<Rightarrow> json" where
  "fld (JObj kvs) k = (case map_of kvs k of Some v \<Rightarrow> v | None \<Rightarrow> JUndef)"
| "fld (JArr xs) k =
     (if k = ''length'' then JNum (int (length xs))
      else case index_of k (length xs) of Some i \<Rightarrow> xs ! i | None \<Rightarrow> JUndef)"
| "fld (JStr s) k =
     (if k = ''length'' then JNum (int (length s))
      else case index_of k (length s) of Some i \<Rightarrow> JStr [s ! i] | None \<Rightarrow> JUndef)"
| "fld v k = JUndef"

text \<open>\<^verbatim>\<open>a ?? b\<close>: \<open>b\<close> when \<open>a\<close> is \<^verbatim>\<open>null\<close> or \<^verbatim>\<open>undefined\<close>.\<close>

definition nullish :: "json \<Rightarrow> bool" where
  "nullish v = (v = JUndef \<or> v = JNull)"

definition nc :: "json \<Rightarrow> json \<Rightarrow> json" where
  "nc a b = (if nullish a then b else a)"

text \<open>
  The own enumerable properties that \<^verbatim>\<open>{...v}\<close> copies, and an object literal
  \<^verbatim>\<open>{...v, k1: x1, k2: x2}\<close>: the later properties overwrite in place or are appended.
\<close>

fun spread :: "json \<Rightarrow> (string \<times> json) list" where
  "spread (JObj kvs) = kvs"
| "spread (JArr xs) = zip (map dec [0..<length xs]) xs"
| "spread (JStr s) = zip (map dec [0..<length s]) (map (\<lambda>c. JStr [c]) s)"
| "spread v = []"

definition set_props :: "(string \<times> json) list \<Rightarrow> (string \<times> json) list \<Rightarrow> (string \<times> json) list" where
  "set_props base props = fold (\<lambda>(k, v) acc. AList.update k v acc) props base"

text \<open>
  A JavaScript \<^verbatim>\<open>Map\<close>, in insertion order. Its keys are compared by value, which is what
  \<^verbatim>\<open>Map\<close> does for strings, numbers, booleans, \<^verbatim>\<open>null\<close> and \<^verbatim>\<open>undefined\<close>; identifiers
  (vector ids, bom-refs) are such values. (A key that is itself an array or an object would
  be compared by reference in JavaScript; the model compares its content.)
\<close>

type_synonym 'v jsmap = "(json \<times> 'v) list"

definition map_has :: "'v jsmap \<Rightarrow> json \<Rightarrow> bool" where
  "map_has m k = (map_of m k \<noteq> None)"

definition map_set :: "'v jsmap \<Rightarrow> json \<Rightarrow> 'v \<Rightarrow> 'v jsmap" where
  "map_set m k v = AList.update k v m"

definition map_get :: "json jsmap \<Rightarrow> json \<Rightarrow> json" where
  "map_get m k = (case map_of m k of Some v \<Rightarrow> v | None \<Rightarrow> JUndef)"

section \<open>The quantum assessment normalizer\<close>

definition NOT_ANALYSED_TEXT :: json where
  "NOT_ANALYSED_TEXT = JStr ''Not analysed''"

definition vector_def :: "string \<Rightarrow> string \<Rightarrow> string \<Rightarrow> string \<Rightarrow> json" where
  "vector_def i n f d =
     JObj [(''id'', JStr i), (''name'', JStr n), (''fullName'', JStr f), (''description'', JStr d)]"

text \<open>The description texts of the six vector definitions are kept as named constants.\<close>

definition description_hndl :: string where
  "description_hndl = ''Analyses storage exposure in data at rest, traffic analysis exposure, and long-term data retention policies.''"

definition description_authentication :: string where
  "description_authentication = ''Analyses digital signatures, certificate management, and multi-factor authentication.''"

definition description_kml :: string where
  "description_kml = ''Analyses quantum robustness of key storage, rotation, destruction, and escrow policies.''"

definition description_thirdParty :: string where
  "description_thirdParty = ''Analyses vendor quantum readiness, library dependencies, API security, and supply chain risks.''"

definition description_cryptoAgility :: string where
  "description_cryptoAgility = ''Analyses cryptographic abstraction layers, protocol flexibility, update mechanisms, and hybrid algorithms.''"

definition description_governance :: string where
  "description_governance = ''Analyses compliance with NIST, CNSA 2.0, ETSI, ISO/IEC standards and breach detection processes.''"

definition QUANTUM_VECTOR_DEFINITIONS :: "json list" where
  "QUANTUM_VECTOR_DEFINITIONS =
    [vector_def ''hndl'' ''HNDL'' ''Harvest-now-decrypt-later threat'' description_hndl,
     vector_def ''authentication'' ''Authentication'' ''Authentication threat'' description_authentication,
     vector_def ''kml'' ''KML'' ''Key management and lifecycle'' description_kml,
     vector_def ''thirdParty'' ''Third Party'' ''Dependency on third parties'' description_thirdParty,
     vector_def ''cryptoAgility'' ''Crypto Agility'' ''Cryptographic agility'' description_cryptoAgility,
     vector_def ''governance'' ''Compliance'' ''Governance and compliance'' description_governance]"

definition default_levels :: json where
  "default_levels =
     JArr [JStr ''critical'', JStr ''high'', JStr ''medium'', JStr ''low'', JStr ''informational'']"

definition defaultQuantumSecurity :: json where
  "defaultQuantumSecurity =
     JObj [
       (''qtrl'', JObj [(''level'', NOT_ANALYSED_TEXT), (''name'', NOT_ANALYSED_TEXT),
                        (''conditions'', NOT_ANALYSED_TEXT)]),
       (''vectors'', JArr (map (\<lambda>d. JObj (set_props (spread d)
                        [(''status'', NOT_ANALYSED_TEXT), (''severity'', NOT_ANALYSED_TEXT),
                         (''urgency'', NOT_ANALYSED_TEXT), (''notes'', NOT_ANALYSED_TEXT)]))
                      QUANTUM_VECTOR_DEFINITIONS)),
       (''riskModel'', JObj [(''severityLevels'', default_levels), (''urgencyLevels'', default_levels),
                             (''notes'', NOT_ANALYSED_TEXT)])]"

definition normalizeQtrl :: "json \<Rightarrow> json \<Rightarrow> json" where
  "normalizeQtrl candidate fallback =
     (if \<not> truthy candidate \<or> typeof candidate \<noteq> ''object'' then fallback
      else JObj [(''level'', nc (fld candidate ''level'') (fld fallback ''level'')),
                 (''name'', nc (fld candidate ''name'') (fld fallback ''name'')),
                 (''conditions'', nc (fld candidate ''conditions'') (fld fallback ''conditions''))])"

text \<open>The body of the \<^verbatim>\<open>candidateVectors.forEach\<close> callback, on the map \<^verbatim>\<open>merged\<close>.\<close>

definition merge_vector :: "json \<Rightarrow> json jsmap \<Rightarrow> json jsmap" where
  "merge_vector vector merged =
     (if \<not> truthy vector \<or> typeof vector \<noteq> ''object'' then merged
      else
        let id = nc (fld vector ''id'')
                   (nc (fld vector ''name'') (JStr (''vector-'' @ dec (length merged + 1))));
            base = nc (map_get merged id)
                     (JObj [(''id'', id), (''name'', nc (fld vector ''name'') id),
                            (''status'', NOT_ANALYSED_TEXT), (''severity'', NOT_ANALYSED_TEXT),
                            (''urgency'', NOT_ANALYSED_TEXT), (''notes'', NOT_ANALYSED_TEXT)])
        in map_set merged id
             (JObj (set_props (spread base)
                [(''name'', nc (fld vector ''name'') (fld base ''name'')),
                 (''status'', nc (fld vector ''status'') (fld base ''status'')),
                 (''severity'', nc (fld vector ''severity'') (fld base ''severity'')),
                 (''urgency'', nc (fld vector ''urgency'') (fld base ''urgency'')),
                 (''notes'', nc (fld vector ''notes'') (fld base ''notes''))])))"

definition normalizeVectors :: "json \<Rightarrow> json \<Rightarrow> json" where
  "normalizeVectors candidateVectors fallbackVectors =
     (let merged = fold (\<lambda>vector m. map_set m (fld vector ''id'') (JObj (spread vector)))
                     (elems fallbackVectors) []
      in JArr (map snd
           (if isArray candidateVectors then fold merge_vector (elems candidateVectors) merged
            else merged)))"

definition normalizeRiskModel :: "json \<Rightarrow> json \<Rightarrow> json" where
  "normalizeRiskModel candidate fallback =
     (if \<not> truthy candidate \<or> typeof candidate \<noteq> ''object'' then fallback
      else JObj [(''severityLevels'',
                    if isArray (fld candidate ''severityLevels'') then fld candidate ''severityLevels''
                    else fld fallback ''severityLevels''),
                 (''urgencyLevels'',
                    if isArray (fld candidate ''urgencyLevels'') then fld candidate ''urgencyLevels''
                    else fld fallback ''urgencyLevels''),
                 (''notes'', nc (fld candidate ''notes'') (fld fallback ''notes''))])"

definition getQuantumSecurityFromCbom :: "json \<Rightarrow> json" where
  "getQuantumSecurityFromCbom cbom =
     (if \<not> truthy cbom \<or> typeof cbom \<noteq> ''object'' then defaultQuantumSecurity
      else
        let quantum = fld cbom ''quantumSecurity'' in
        if \<not> truthy quantum \<or> typeof quantum \<noteq> ''object'' then defaultQuantumSecurity
        else
          let base = defaultQuantumSecurity in
          JObj [(''qtrl'', normalizeQtrl (fld quantum ''qtrl'') (fld base ''qtrl'')),
                (''vectors'', normalizeVectors (fld quantum ''vectors'') (fld base ''vectors'')),
                (''riskModel'', normalizeRiskModel (fld quantum ''riskModel'') (fld base ''riskModel''))])"

text \<open>\<^verbatim>\<open>QUANTUM_VECTOR_DEFINITIONS.find((v) => v.id === vectorId)\<close>\<close>

definition find_vector_def :: "json \<Rightarrow> json option" where
  "find_vector_def vectorId = find (\<lambda>v. fld v ''id'' = vectorId) QUANTUM_VECTOR_DEFINITIONS"

definition defaultAssessment :: json where
  "defaultAssessment =
     JObj [(''vector'', NOT_ANALYSED_TEXT), (''severity'', NOT_ANALYSED_TEXT),
           (''urgency'', NOT_ANALYSED_TEXT), (''notes'', NOT_ANALYSED_TEXT),
           (''vectorName'', NOT_ANALYSED_TEXT)]"

definition getComponentQuantumAssessment :: "json \<Rightarrow> json" where
  "getComponentQuantumAssessment asset =
     (if \<not> truthy asset \<or> typeof asset \<noteq> ''object'' then defaultAssessment
      else
        let cryptoProps = fld asset ''cryptoProperties'' in
        if \<not> truthy cryptoProps \<or> typeof cryptoProps \<noteq> ''object'' then defaultAssessment
        else
          let qa = fld cryptoProps ''quantumAssessment'' in
          if \<not> truthy qa \<or> typeof qa \<noteq> ''object'' then defaultAssessment
          else
            let vectorId = nc (fld qa ''vector'') NOT_ANALYSED_TEXT;
                vectorName = (case find_vector_def vectorId of
                                Some vectorDef \<Rightarrow> fld vectorDef ''name''
                              | None \<Rightarrow> vectorId)
            in JObj [(''vector'', vectorId),
                     (''severity'', nc (fld qa ''severity'') NOT_ANALYSED_TEXT),
                     (''urgency'', nc (fld qa ''urgency'') NOT_ANALYSED_TEXT),
                     (''notes'', nc (fld qa ''notes'') NOT_ANALYSED_TEXT),
                     (''vectorName'', vectorName)])"

section \<open>The path resolver\<close>

text \<open>\<^verbatim>\<open>path.split('.')\<close>: the pieces between the separators; the empty string gives one empty
  piece.\<close>

fun split_on :: "char \<Rightarrow> string \<Rightarrow> string list" where
  "split_on c [] = [[]]"
| "split_on c (x # xs) =
     (if x = c then [] # split_on c xs
      else (case split_on c xs of p # ps \<Rightarrow> (x # p) # ps | [] \<Rightarrow> [[x]]))"

text \<open>\<^verbatim>\<open>Array.prototype.flat()\<close>: one level of nesting is removed.\<close>

definition flat :: "json list \<Rightarrow> json list" where
  "flat xs = concat (map (\<lambda>x. case x of JArr ys \<Rightarrow> ys | _ \<Rightarrow> [x]) xs)"

text \<open>
  The inner function \<^verbatim>\<open>traverse(currentObj, remainingPath)\<close> of \<^verbatim>\<open>resolvePath\<close>. The
  result is \<^verbatim>\<open>undefined\<close> or an array. An array is traversed element by element with the
  same remaining path; an object (\<^verbatim>\<open>typeof currentObj === 'object'\<close>, not \<^verbatim>\<open>null\<close>, not an
  array) is descended into when it has the key as an own property; everything else has no
  value under a non-empty path.
\<close>

function (sequential) traverse :: "json \<Rightarrow> string list \<Rightarrow> json" where
  "traverse currentObj [] =
     (if currentObj \<noteq> JUndef \<and> \<not> isArray currentObj then JArr [currentObj] else currentObj)"
| "traverse (JArr xs) (key # nextPath) =
     JArr (flat (filter (\<lambda>item. item \<noteq> JUndef)
                   (map (\<lambda>item. traverse item (key # nextPath)) xs)))"
| "traverse (JObj kvs) (key # nextPath) =
     (case map_of kvs key of Some v \<Rightarrow> traverse v nextPath | None \<Rightarrow> JUndef)"
| "traverse currentObj (key # nextPath) = JUndef"
  by pat_completeness auto
termination
proof (relation "measure (\<lambda>(v, p). size v)")
  fix kvs :: "(string \<times> json) list" and key :: string and nextPath :: "string list" and v :: json
  assume "map_of kvs key = Some v"
  then have "size v < Suc (size_list (size_prod (\<lambda>_. 0) size) kvs)"
    by (induction kvs) (auto split: if_splits)
  then show "((v, nextPath), JObj kvs, key # nextPath) \<in> measure (\<lambda>(v, p). size v)"
    by simp
qed (auto simp add: less_Suc_eq_le intro: size_list_estimation')

definition resolvePath :: "json \<Rightarrow> string \<Rightarrow> json" where
  "resolvePath obj path = traverse obj (split_on CHR ''.'' path)"

text \<open>
  The notions of the specification of the resolver, in its words. A segment is absent on a
  plain object when the path, followed through plain objects and through the branches of
  arrays, arrives at a plain object without the next key. The matching leaves of a path are
  counted across all array branches: at the end of the path a sequence counts its elements and
  any other value counts once.
\<close>

function (sequential) absent_on_object :: "json \<Rightarrow> string list \<Rightarrow> bool" where
  "absent_on_object (JObj kvs) (key # nextPath) =
     (case map_of kvs key of None \<Rightarrow> True | Some v \<Rightarrow> absent_on_object v nextPath)"
| "absent_on_object (JArr xs) (key # nextPath) =
     list_ex (\<lambda>item. absent_on_object item (key # nextPath)) xs"
| "absent_on_object v p = False"
  by pat_completeness auto
termination
proof (relation "measure (\<lambda>(v, p). size v)")
  fix kvs :: "(string \<times> json) list" and key :: string and nextPath :: "string list" and v :: json
  assume "map_of kvs key = Some v"
  then have "size v < Suc (size_list (size_prod (\<lambda>_. 0) size) kvs)"
    by (induction kvs) (auto split: if_splits)
  then show "((v, nextPath), JObj kvs, key # nextPath) \<in> measure (\<lambda>(v, p). size v)"
    by simp
qed (auto simp add: less_Suc_eq_le intro: size_list_estimation')

text \<open>
  The paths without a value: followed from the root through plain objects, the path arrives,
  before it enters any array, at a plain object without the next key, at a value that is no
  object while a segment is left, or, at its end, at \<^verbatim>\<open>undefined\<close>.
\<close>

function (sequential) absent_before_array :: "json \<Rightarrow> string list \<Rightarrow> bool" where
  "absent_before_array v [] = (v = JUndef)"
| "absent_before_array (JObj kvs) (key # nextPath) =
     (case map_of kvs key of None \<Rightarrow> True | Some v \<Rightarrow> absent_before_array v nextPath)"
| "absent_before_array (JArr xs) (key # nextPath) = False"
| "absent_before_array v (key # nextPath) = True"
  by pat_completeness auto
termination
proof (relation "measure (\<lambda>(v, p). size v)")
  fix kvs :: "(string \<times> json) list" and key :: string and nextPath :: "string list" and v :: json
  assume "map_of kvs key = Some v"
  then have "size v < Suc (size_list (size_prod (\<lambda>_. 0) size) kvs)"
    by (induction kvs) (auto split: if_splits)
  then show "((v, nextPath), JObj kvs, key # nextPath) \<in> measure (\<lambda>(v, p). size v)"
    by simp
qed (auto simp add: less_Suc_eq_le intro: size_list_estimation')

function (sequential) count_leaves :: "json \<Rightarrow> string list \<Rightarrow> nat" where
  "count_leaves v [] = (case v of JUndef \<Rightarrow> 0 | JArr xs \<Rightarrow> length xs | _ \<Rightarrow> 1)"
| "count_leaves (JArr xs) (key # nextPath) =
     sum_list (map (\<lambda>item. count_leaves item (key # nextPath)) xs)"
| "count_leaves (JObj kvs) (key # nextPath) =
     (case map_of kvs key of Some v \<Rightarrow> count_leaves v nextPath | None \<Rightarrow> 0)"
| "count_leaves v (key # nextPath) = 0"
  by pat_completeness auto
termination
proof (relation "measure (\<lambda>(v, p). size v)")
  fix kvs :: "(string \<times> json) list" and key :: string and nextPath :: "string list" and v :: json
  assume "map_of kvs key = Some v"
  then have "size v < Suc (size_list (size_prod (\<lambda>_. 0) size) kvs)"
    by (induction kvs) (auto split: if_splits)
  then show "((v, nextPath), JObj kvs, key # nextPath) \<in> measure (\<lambda>(v, p). size v)"
    by simp
qed (auto simp add: less_Suc_eq_le intro: size_list_estimation')


section \<open>The application state\<close>

text \<open>
  The helpers read and write the object \<^verbatim>\<open>model\<close> imported from \<^verbatim>\<open>@/model.js\<close>. Its
  fields that the helpers touch are the parameters of the record below: the loaded document
  \<^verbatim>\<open>model.cbom\<close>, the scan state \<^verbatim>\<open>model.scanning.isScanning\<close> and
  \<^verbatim>\<open>model.scanning.liveDetections\<close>, the dependency index \<^verbatim>\<open>model.dependencies\<close>
  (absent until it is first built), the errors handed to \<^verbatim>\<open>model.addError\<close>, and what was
  written to the console.
\<close>

datatype ErrorStatus = InvalidCbom | IgnoredComponent | JsonParsing

datatype console_line =
    IgnoringComponent nat json
  | InvalidCbomDetected "string list"
  | ErrorParsingJSON

text \<open>
  A detection is a reference to an object. \<open>Shared i\<close> is the component object
  \<^verbatim>\<open>cbom.components[i]\<close> of the loaded document itself. \<open>Copied v i j\<close> is a new object with
  content \<open>v\<close>, made by \<^verbatim>\<open>JSON.parse(JSON.stringify(component))\<close> from component \<open>i\<close>; the
  one element of its \<^verbatim>\<open>evidence.occurrences\<close> is the occurrence object \<open>j\<close> of that
  component. \<open>Live i\<close> is the object \<^verbatim>\<open>model.scanning.liveDetections[i]\<close>.
\<close>

datatype detection = Shared nat | Copied json nat nat | Live nat

type_synonym edge = "json \<times> string"

record dependency_index =
  dependsMap :: "edge list jsmap"
  isDependedOnMap :: "edge list jsmap"
  providesMap :: "edge list jsmap"
  isProvidedByMap :: "edge list jsmap"
  detectionsMap :: "detection jsmap"

record model =
  m_cbom :: json
  m_isScanning :: bool
  m_liveDetections :: "json list"
  m_dependencies :: "dependency_index option"
  m_errors :: "ErrorStatus list"
  m_console :: "console_line list"

text \<open>
  Modelled from the spec: \<^verbatim>\<open>model.addError\<close> is defined in \<^verbatim>\<open>@/model.js\<close>, which is not
  part of the sources at hand. The specification describes it as the surface where validity
  and ignored-component signals are raised, without exceptions; the model records each
  signal, in order.
\<close>

definition addError :: "ErrorStatus \<Rightarrow> model \<Rightarrow> model" where
  "addError e m = m\<lparr>m_errors := m_errors m @ [e]\<rparr>"

definition console_log :: "console_line \<Rightarrow> model \<Rightarrow> model" where
  "console_log l m = m\<lparr>m_console := m_console m @ [l]\<rparr>"

text \<open>An assignment \<^verbatim>\<open>o.k = v\<close> to a property of an object; it is applied to objects only.\<close>

fun assign :: "json \<Rightarrow> string \<Rightarrow> json \<Rightarrow> json" where
  "assign (JObj kvs) k v = JObj (AList.update k v kvs)"
| "assign obj k v = obj"

definition nth_or_undef :: "json list \<Rightarrow> nat \<Rightarrow> json" where
  "nth_or_undef xs i = (if i < length xs then xs ! i else JUndef)"

definition components_of :: "json \<Rightarrow> json list" where
  "components_of cbom = elems (fld cbom ''components'')"

text \<open>The content of the object a detection refers to, in a given state.\<close>

fun detection_value :: "model \<Rightarrow> detection \<Rightarrow> json" where
  "detection_value m (Shared i) = nth_or_undef (components_of (m_cbom m)) i"
| "detection_value m (Copied v i j) = v"
| "detection_value m (Live i) = nth_or_undef (m_liveDetections m) i"


section \<open>The detection flattener\<close>

text \<open>
  \<^verbatim>\<open>JSON.parse(JSON.stringify(v))\<close> builds a new value from the JSON text of \<open>v\<close>: a property
  whose value is \<^verbatim>\<open>undefined\<close> is left out and an \<^verbatim>\<open>undefined\<close> array element becomes
  \<^verbatim>\<open>null\<close>; an infinity and \<^verbatim>\<open>NaN\<close> are written as \<^verbatim>\<open>null\<close>, and negative zero as
  \<^verbatim>\<open>0\<close>. It is applied to components, which are objects.
\<close>

fun clone :: "json \<Rightarrow> json" where
  "clone (JArr xs) = JArr (map (\<lambda>x. if x = JUndef then JNull else clone x) xs)"
| "clone (JObj kvs) =
     JObj (map (\<lambda>kv. (fst kv, clone (snd kv))) (filter (\<lambda>kv. snd kv \<noteq> JUndef) kvs))"
| "clone (JInfinity b) = JNull"
| "clone JNaN = JNull"
| "clone JNegZero = JNum 0"
| "clone v = v"

text \<open>\<^verbatim>\<open>detectionWithSingleContext.evidence.occurrences = [singleContext]\<close>\<close>

definition with_single_context :: "json \<Rightarrow> json \<Rightarrow> json" where
  "with_single_context d singleContext =
     assign d ''evidence'' (assign (fld d ''evidence'') ''occurrences'' (JArr [singleContext]))"

text \<open>
  The test \<^verbatim>\<open>Object.hasOwn(component, "evidence") && Object.hasOwn(component.evidence,
  "occurrences") && Array.isArray(component.evidence.occurrences)\<close>, with its short circuit.
\<close>

definition has_occurrences :: "json \<Rightarrow> error + bool" where
  "has_occurrences component =
     (case hasOwn component ''evidence'' of
        Inl e \<Rightarrow> Inl e
      | Inr False \<Rightarrow> Inr False
      | Inr True \<Rightarrow>
          (case hasOwn (fld component ''evidence'') ''occurrences'' of
             Inl e \<Rightarrow> Inl e
           | Inr False \<Rightarrow> Inr False
           | Inr True \<Rightarrow> Inr (isArray (fld (fld component ''evidence'') ''occurrences''))))"

definition occurrences_of :: "json \<Rightarrow> json list" where
  "occurrences_of component = elems (fld (fld component ''evidence'') ''occurrences'')"

text \<open>The callback of \<^verbatim>\<open>cbom.components.forEach\<close>, for the component at index \<open>i\<close>: the
  detections it pushes, or the exception it raises.\<close>

definition component_detections :: "nat \<Rightarrow> json \<Rightarrow> error + detection list" where
  "component_detections i component =
     (case hasOwn component ''type'' of
        Inl e \<Rightarrow> Inl e
      | Inr t \<Rightarrow>
          if t \<and> fld component ''type'' = JStr ''cryptographic-asset'' then
            (case has_occurrences component of
               Inl e \<Rightarrow> Inl e
             | Inr True \<Rightarrow>
                 Inr (map (\<lambda>(j, singleContext).
                             Copied (with_single_context (clone component) singleContext) i j)
                        (enumerate 0 (occurrences_of component)))
             | Inr False \<Rightarrow> Inr [Shared i])
          else Inr [])"

fun flatten_components :: "nat \<Rightarrow> json list \<Rightarrow> error + detection list" where
  "flatten_components i [] = Inr []"
| "flatten_components i (component # rest) =
     (case component_detections i component of
        Inl e \<Rightarrow> Inl e
      | Inr ds \<Rightarrow>
          (case flatten_components (Suc i) rest of
             Inl e \<Rightarrow> Inl e
           | Inr ds' \<Rightarrow> Inr (ds @ ds')))"

text \<open>The body of the \<^verbatim>\<open>try\<close> block of \<^verbatim>\<open>getDetectionsFromCbom\<close>.\<close>

definition detections_try :: "json \<Rightarrow> error + detection list" where
  "detections_try cbom =
     (if cbom = JUndef \<or> cbom = JNull then Inr []
      else
        (case hasOwn cbom ''components'' of
           Inl e \<Rightarrow> Inl e
         | Inr h \<Rightarrow>
             if h \<and> isArray (fld cbom ''components'')
             then flatten_components 0 (components_of cbom)
             else Inr []))"

definition getDetectionsFromCbom :: "json \<Rightarrow> model \<Rightarrow> detection list \<times> model" where
  "getDetectionsFromCbom cbom m =
     (case detections_try cbom of
        Inr detections \<Rightarrow> (detections, m)
      | Inl e \<Rightarrow> ([], addError JsonParsing (console_log ErrorParsingJSON m)))"

text \<open>
  The callback of \<^verbatim>\<open>removeBomRefFromDetectionNames\<close> on the content of one detection: the
  new name when the name is a string that contains \<^verbatim>\<open>@\<close>, no change, or the TypeError of
  \<^verbatim>\<open>detection.name.includes\<close> (no such method on a number, a boolean, an object,
  \<^verbatim>\<open>null\<close>) or of \<^verbatim>\<open>detection.name.split\<close> (no such method on an array).
\<close>

definition stripped_name :: "json \<Rightarrow> error + json option" where
  "stripped_name d =
     (case hasOwn d ''name'' of
        Inl e \<Rightarrow> Inl e
      | Inr False \<Rightarrow> Inr None
      | Inr True \<Rightarrow>
          (case fld d ''name'' of
             JStr s \<Rightarrow> Inr (if CHR ''@'' \<in> set s
                             then Some (JStr (takeWhile (\<lambda>c. c \<noteq> CHR ''@'') s)) else None)
           | JArr xs \<Rightarrow> if JStr ''@'' \<in> set xs then Inl TypeError else Inr None
           | _ \<Rightarrow> Inl TypeError))"

text \<open>\<^verbatim>\<open>detection.name = n\<close>, on the object the detection refers to.\<close>

fun set_detection_name :: "detection \<Rightarrow> json \<Rightarrow> model \<Rightarrow> detection \<times> model" where
  "set_detection_name (Shared i) n m =
     (Shared i,
      m\<lparr>m_cbom := assign (m_cbom m) ''components''
           (JArr ((components_of (m_cbom m))
                    [i := assign (nth_or_undef (components_of (m_cbom m)) i) ''name'' n]))\<rparr>)"
| "set_detection_name (Copied v i j) n m = (Copied (assign v ''name'' n) i j, m)"
| "set_detection_name (Live i) n m =
     (Live i,
      m\<lparr>m_liveDetections := (m_liveDetections m)
           [i := assign (nth_or_undef (m_liveDetections m) i) ''name'' n]\<rparr>)"

fun removeBomRefFromDetectionNames ::
  "detection list \<Rightarrow> model \<Rightarrow> (error + detection list) \<times> model" where
  "removeBomRefFromDetectionNames [] m = (Inr [], m)"
| "removeBomRefFromDetectionNames (d # ds) m =
     (case stripped_name (detection_value m d) of
        Inl e \<Rightarrow> (Inl e, m)
      | Inr None \<Rightarrow>
          (case removeBomRefFromDetectionNames ds m of
             (Inl e, m') \<Rightarrow> (Inl e, m')
           | (Inr ds', m') \<Rightarrow> (Inr (d # ds'), m'))
      | Inr (Some n) \<Rightarrow>
          (case set_detection_name d n m of
             (d', m1) \<Rightarrow>
               (case removeBomRefFromDetectionNames ds m1 of
                  (Inl e, m') \<Rightarrow> (Inl e, m')
                | (Inr ds', m') \<Rightarrow> (Inr (d' # ds'), m'))))"

definition getDetections :: "model \<Rightarrow> (error + detection list) \<times> model" where
  "getDetections m =
     (case getDetectionsFromCbom (m_cbom m) m of
        (detections, m1) \<Rightarrow>
          removeBomRefFromDetectionNames
            (if m_isScanning m1 then map Live [0..<length (m_liveDetections m1)] else detections)
            m1)"


section \<open>The dependency index\<close>

text \<open>
  \<^verbatim>\<open>if (!map.has(k)) { map.set(k, []); }  map.get(k).push(x);\<close> on a map from references to
  lists of \<^verbatim>\<open>[ref, path]\<close> pairs, and \<^verbatim>\<open>map.get(k) || []\<close>.
\<close>

definition edges_of :: "edge list jsmap \<Rightarrow> json \<Rightarrow> edge list" where
  "edges_of m k = (case map_of m k of Some es \<Rightarrow> es | None \<Rightarrow> [])"

definition map_push :: "edge list jsmap \<Rightarrow> json \<Rightarrow> edge \<Rightarrow> edge list jsmap" where
  "map_push m k x =
     (let m1 = (if \<not> map_has m k then map_set m k [] else m)
      in map_set m1 k (edges_of m1 k @ [x]))"

definition empty_index :: dependency_index where
  "empty_index = \<lparr>dependsMap = [], isDependedOnMap = [], providesMap = [], isProvidedByMap = [],
                   detectionsMap = []\<rparr>"

definition add_depends :: "json \<Rightarrow> json \<Rightarrow> string \<Rightarrow> dependency_index \<Rightarrow> dependency_index" where
  "add_depends bomRef ref path idx =
     idx\<lparr>dependsMap := map_push (dependsMap idx) bomRef (ref, path),
         isDependedOnMap := map_push (isDependedOnMap idx) ref (bomRef, path)\<rparr>"

definition add_provides :: "json \<Rightarrow> json \<Rightarrow> string \<Rightarrow> dependency_index \<Rightarrow> dependency_index" where
  "add_provides bomRef ref path idx =
     idx\<lparr>providesMap := map_push (providesMap idx) bomRef (ref, path),
         isProvidedByMap := map_push (isProvidedByMap idx) ref (bomRef, path)\<rparr>"

text \<open>The body of the loop over \<^verbatim>\<open>cbom.dependencies\<close>.\<close>

definition explicit_step :: "json \<Rightarrow> dependency_index \<Rightarrow> error + dependency_index" where
  "explicit_step dep idx =
     (case hasOwn dep ''ref'' of
        Inl e \<Rightarrow> Inl e
      | Inr False \<Rightarrow> Inr idx
      | Inr True \<Rightarrow>
          (let bomRef = fld dep ''ref'';
               idx1 = (if hasOwn dep ''dependsOn'' = Inr True \<and> isArray (fld dep ''dependsOn'')
                       then fold (\<lambda>dependsOnRef. add_depends bomRef dependsOnRef ''dependencies.dependsOn'')
                              (elems (fld dep ''dependsOn'')) idx
                       else idx);
               idx2 = (if hasOwn dep ''provides'' = Inr True \<and> isArray (fld dep ''provides'')
                       then fold (\<lambda>providesRef. add_provides bomRef providesRef ''dependencies.provides'')
                              (elems (fld dep ''provides'')) idx1
                       else idx1)
           in Inr idx2))"

fun explicit_loop :: "json list \<Rightarrow> dependency_index \<Rightarrow> error + dependency_index" where
  "explicit_loop [] idx = Inr idx"
| "explicit_loop (dep # deps) idx =
     (case explicit_step dep idx of Inl e \<Rightarrow> Inl e | Inr idx' \<Rightarrow> explicit_loop deps idx')"

definition dependencyPaths :: "string list" where
  "dependencyPaths =
     [''cryptoProperties.certificateProperties.signatureAlgorithmRef'',
      ''cryptoProperties.certificateProperties.subjectPublicKeyRef'',
      ''cryptoProperties.protocolProperties.cipherSuites.algorithms'',
      ''cryptoProperties.protocolProperties.ikev2TransformTypes.encr'',
      ''cryptoProperties.protocolProperties.ikev2TransformTypes.prf'',
      ''cryptoProperties.protocolProperties.ikev2TransformTypes.integ'',
      ''cryptoProperties.protocolProperties.ikev2TransformTypes.ke'',
      ''cryptoProperties.protocolProperties.ikev2TransformTypes.esn'',
      ''cryptoProperties.protocolProperties.ikev2TransformTypes.auth'',
      ''cryptoProperties.protocolProperties.cryptoRefArray'',
      ''cryptoProperties.relatedCryptoMaterialProperties.algorithmRef'',
      ''cryptoProperties.relatedCryptoMaterialProperties.securedBy.algorithmRef'']"

text \<open>The body of the loop over \<^verbatim>\<open>dependencyPaths\<close>, for a detection with content \<open>d\<close>.\<close>

definition path_step :: "json \<Rightarrow> json \<Rightarrow> string \<Rightarrow> dependency_index \<Rightarrow> dependency_index" where
  "path_step d bomRef path idx =
     (let allRefs = resolvePath d path
      in if allRefs \<noteq> JUndef
         then fold (\<lambda>ref. add_depends bomRef ref path) (elems allRefs) idx
         else idx)"

text \<open>The body of the loop over the detections; \<open>d\<close> is the content of the detection.\<close>

definition implicit_step :: "detection \<Rightarrow> json \<Rightarrow> dependency_index \<Rightarrow> error + dependency_index" where
  "implicit_step detection d idx =
     (case hasOwn d ''bom-ref'' of
        Inl e \<Rightarrow> Inl e
      | Inr False \<Rightarrow> Inr idx
      | Inr True \<Rightarrow>
          (let bomRef = fld d ''bom-ref'';
               idx1 = idx\<lparr>detectionsMap := map_set (detectionsMap idx) bomRef detection\<rparr>
           in Inr (fold (path_step d bomRef) dependencyPaths idx1)))"

fun implicit_loop :: "model \<Rightarrow> detection list \<Rightarrow> dependency_index \<Rightarrow> error + dependency_index" where
  "implicit_loop m [] idx = Inr idx"
| "implicit_loop m (detection # rest) idx =
     (case implicit_step detection (detection_value m detection) idx of
        Inl e \<Rightarrow> Inl e
      | Inr idx' \<Rightarrow> implicit_loop m rest idx')"

text \<open>The first part of \<^verbatim>\<open>setDependenciesMap\<close>: the dependencies defined at the top level.\<close>

definition explicit_dependencies :: "json \<Rightarrow> error + dependency_index" where
  "explicit_dependencies cbom =
     (case hasOwn cbom ''dependencies'' of
        Inl e \<Rightarrow> Inl e
      | Inr h \<Rightarrow>
          if h \<and> isArray (fld cbom ''dependencies'')
          then explicit_loop (elems (fld cbom ''dependencies'')) empty_index
          else Inr empty_index)"

text \<open>
  \<^verbatim>\<open>setDependenciesMap(cbom)\<close>. An exception leaves \<^verbatim>\<open>model.dependencies\<close> as it was; the
  names that \<^verbatim>\<open>getDetections\<close> has rewritten stay rewritten.
\<close>

definition setDependenciesMap :: "json \<Rightarrow> model \<Rightarrow> (error + unit) \<times> model" where
  "setDependenciesMap cbom m =
     (case explicit_dependencies cbom of
        Inl e \<Rightarrow> (Inl e, m)
      | Inr idx0 \<Rightarrow>
          (case getDetections m of
             (Inl e, m1) \<Rightarrow> (Inl e, m1)
           | (Inr detections, m1) \<Rightarrow>
               (case implicit_loop m1 detections idx0 of
                  Inl e \<Rightarrow> (Inl e, m1)
                | Inr idx \<Rightarrow> (Inr (), m1\<lparr>m_dependencies := Some idx\<rparr>))))"





section \<open>The document validator\<close>

text \<open>The local variables of \<^verbatim>\<open>checkCbomValidity\<close>, and the components it warned about.\<close>

record validity =
  isValid :: bool
  isIgnoringSomeComponent :: bool
  errorMessages :: "string list"
  warned :: "(nat \<times> json) list"

datatype exit = Completed | ReturnedEarly | Threw error

definition invalid :: "string \<Rightarrow> validity \<Rightarrow> validity" where
  "invalid msg v = v\<lparr>isValid := False, errorMessages := errorMessages v @ [msg]\<rparr>"

definition require_field :: "json \<Rightarrow> string \<Rightarrow> validity \<Rightarrow> validity" where
  "require_field cbom k v =
     (if hasOwn cbom k \<noteq> Inr True then invalid (''Missing mandatory field: '' @ k @ ''.'') v else v)"

text \<open>The callback of \<^verbatim>\<open>cbom.components.forEach\<close> in the validator.\<close>

definition check_component :: "nat \<Rightarrow> json \<Rightarrow> validity \<Rightarrow> error + validity" where
  "check_component index component v =
     (case hasOwn component ''type'' of
        Inl e \<Rightarrow> Inl e
      | Inr False \<Rightarrow>
          Inr (invalid (''Component at index '' @ dec index @ '' is missing mandatory field: type.'') v)
      | Inr True \<Rightarrow>
          if fld component ''type'' \<noteq> JStr ''cryptographic-asset''
          then Inr (v\<lparr>isIgnoringSomeComponent := True,
                       warned := warned v @ [(index, fld component ''type'')]\<rparr>)
          else if hasOwn component ''cryptoProperties'' \<noteq> Inr True
          then Inr (invalid (''Component at index '' @ dec index @
                              '' is missing mandatory field: cryptoProperties.'') v)
          else Inr v)"

fun check_components :: "nat \<Rightarrow> json list \<Rightarrow> validity \<Rightarrow> exit \<times> validity" where
  "check_components index [] v = (Completed, v)"
| "check_components index (component # rest) v =
     (case check_component index component v of
        Inl e \<Rightarrow> (Threw e, v)
      | Inr v' \<Rightarrow> check_components (Suc index) rest v')"

text \<open>The function up to the two reports at its end: how it leaves the checks, and the local
  variables at that point.\<close>

definition check_body :: "json \<Rightarrow> exit \<times> validity" where
  "check_body cbom =
     (let v0 = \<lparr>isValid = True, isIgnoringSomeComponent = False, errorMessages = [], warned = []\<rparr>
      in if cbom = JUndef \<or> cbom = JNull
         then (Completed, invalid ''CBOM is undefined or null.'' v0)
         else
           let v4 = require_field cbom ''version''
                      (require_field cbom ''serialNumber''
                        (require_field cbom ''specVersion''
                          (require_field cbom ''bomFormat'' v0)))
           in if hasOwn cbom ''components'' \<noteq> Inr True then (ReturnedEarly, v4)
              else if \<not> isArray (fld cbom ''components'')
              then (Completed, invalid ''Components field is not an array.'' v4)
              else check_components 0 (components_of cbom) v4)"

definition report :: "validity \<Rightarrow> model \<Rightarrow> model" where
  "report v m =
     (let m1 = (if isIgnoringSomeComponent v then addError IgnoredComponent m else m)
      in if \<not> isValid v
         then addError InvalidCbom (console_log (InvalidCbomDetected (errorMessages v)) m1)
         else m1)"

definition checkCbomValidity :: "json \<Rightarrow> model \<Rightarrow> (error + unit) \<times> model" where
  "checkCbomValidity cbom m =
     (case check_body cbom of
        (ex, v) \<Rightarrow>
          (let m1 = fold (\<lambda>(index, t). console_log (IgnoringComponent index t)) (warned v) m
           in case ex of
                Threw e \<Rightarrow> (Inl e, m1)
              | ReturnedEarly \<Rightarrow> (Inr (), m1)
              | Completed \<Rightarrow> (Inr (), report v m1)))"


subsection \<open>Notions used in the proofs about the normalizer\<close>

definition canon_keys :: "json list" where
  "canon_keys = map (\<lambda>d. fld d ''id'') QUANTUM_VECTOR_DEFINITIONS"

definition default_merged :: "json jsmap" where
  "default_merged = fold (\<lambda>vector m. map_set m (fld vector ''id'') (JObj (spread vector)))
                     (elems (fld defaultQuantumSecurity ''vectors'')) []"

definition static_of :: "json \<Rightarrow> (json \<times> json) option" where
  "static_of k = map_option (\<lambda>d. (fld d ''fullName'', fld d ''description''))
                   (find (\<lambda>d. fld d ''id'' = k) QUANTUM_VECTOR_DEFINITIONS)"

definition canon_shape :: "json \<Rightarrow> json \<Rightarrow> json \<Rightarrow> json \<Rightarrow> json \<Rightarrow> json \<Rightarrow> json \<Rightarrow> json \<Rightarrow> json" where
  "canon_shape k F D n s sv u nt =
     JObj [(''id'', k), (''name'', n), (''fullName'', F), (''description'', D),
           (''status'', s), (''severity'', sv), (''urgency'', u), (''notes'', nt)]"

definition extra_shape :: "json \<Rightarrow> json \<Rightarrow> json \<Rightarrow> json \<Rightarrow> json \<Rightarrow> json \<Rightarrow> json" where
  "extra_shape k n s sv u nt =
     JObj [(''id'', k), (''name'', n),
           (''status'', s), (''severity'', sv), (''urgency'', u), (''notes'', nt)]"

definition wf_entry :: "json \<Rightarrow> json \<Rightarrow> bool" where
  "wf_entry k e =
     (\<exists>n s sv u nt. \<not> nullish n \<and> \<not> nullish s \<and> \<not> nullish sv \<and> \<not> nullish u \<and> \<not> nullish nt \<and>
        (case static_of k of
           Some (F, D) \<Rightarrow> e = canon_shape k F D n s sv u nt
         | None \<Rightarrow> \<not> nullish k \<and> e = extra_shape k n s sv u nt))"

definition normal_map :: "json jsmap \<Rightarrow> bool" where
  "normal_map M = (distinct (map fst M) \<and> take 6 (map fst M) = canon_keys \<and>
                   (\<forall>(k, e) \<in> set M. wf_entry k e))"

definition vkey :: "json \<Rightarrow> nat \<Rightarrow> json" where
  "vkey v n = nc (fld v ''id'') (nc (fld v ''name'') (JStr (''vector-'' @ dec (n + 1))))"

definition qtrl_ok :: "json \<Rightarrow> bool" where
  "qtrl_ok q = (\<exists>l n c. \<not> nullish l \<and> \<not> nullish n \<and> \<not> nullish c \<and>
                  q = JObj [(''level'', l), (''name'', n), (''conditions'', c)])"

definition risk_ok :: "json \<Rightarrow> bool" where
  "risk_ok r = (\<exists>a b c. isArray a \<and> isArray b \<and> \<not> nullish c \<and>
                  r = JObj [(''severityLevels'', a), (''urgencyLevels'', b), (''notes'', c)])"

definition quantum_ok :: "json \<Rightarrow> bool" where
  "quantum_ok x = (\<exists>q M r. qtrl_ok q \<and> normal_map M \<and> risk_ok r \<and>
                  x = JObj [(''qtrl'', q), (''vectors'', JArr (map snd M)), (''riskModel'', r)])"

definition assessment_ok :: "json \<Rightarrow> bool" where
  "assessment_ok a = (\<exists>v s u n. \<not> nullish v \<and> \<not> nullish s \<and> \<not> nullish u \<and> \<not> nullish n \<and>
     a = JObj [(''vector'', v), (''severity'', s), (''urgency'', u), (''notes'', n),
               (''vectorName'', case find_vector_def v of Some d \<Rightarrow> fld d ''name'' | None \<Rightarrow> v)])"

definition objlike :: "json \<Rightarrow> bool" where
  "objlike v = (truthy v \<and> typeof v = ''object'')"





subsection \<open>Notions used in the proofs about the resolver\<close>

text \<open>The length of the result of the resolver; \<^verbatim>\<open>undefined\<close> has none.\<close>

definition out_len :: "json \<Rightarrow> nat" where
  "out_len r = (case r of JArr ys \<Rightarrow> length ys | _ \<Rightarrow> 0)"

subsection \<open>Notions used in the proofs about the flattener\<close>

text \<open>The test of the flattener for a component to process, the component a detection comes
  from, and the values that a JSON text holds exactly, which \<^verbatim>\<open>JSON.stringify\<close> writes and
  \<^verbatim>\<open>JSON.parse\<close> reads back as they are (no \<^verbatim>\<open>undefined\<close>, no infinity, no \<^verbatim>\<open>NaN\<close> and no
  negative zero inside).\<close>

definition is_asset :: "json \<Rightarrow> bool" where
  "is_asset component =
     (hasOwn component ''type'' = Inr True \<and> fld component ''type'' = JStr ''cryptographic-asset'')"

fun origin :: "detection \<Rightarrow> nat option" where
  "origin (Shared i) = Some i"
| "origin (Copied v i j) = Some i"
| "origin (Live i) = None"

fun json_exact :: "json \<Rightarrow> bool" where
  "json_exact JUndef = False"
| "json_exact (JInfinity b) = False"
| "json_exact JNaN = False"
| "json_exact JNegZero = False"
| "json_exact (JArr xs) = list_all json_exact xs"
| "json_exact (JObj kvs) = list_all (\<lambda>kv. json_exact (snd kv)) kvs"
| "json_exact v = True"

definition dets_of :: "nat \<Rightarrow> json \<Rightarrow> detection list" where
  "dets_of i component =
     (case component_detections i component of Inr ds \<Rightarrow> ds | Inl e \<Rightarrow> [])"

definition has_components :: "json \<Rightarrow> bool" where
  "has_components cbom = (hasOwn cbom ''components'' = Inr True \<and> isArray (fld cbom ''components''))"

definition renamed :: "json \<Rightarrow> json" where
  "renamed c = (case stripped_name c of Inr (Some n) \<Rightarrow> assign c ''name'' n | _ \<Rightarrow> c)"

definition strip_step :: "detection \<Rightarrow> json option \<Rightarrow> model \<Rightarrow> detection \<times> model" where
  "strip_step d opt m = (case opt of None \<Rightarrow> (d, m) | Some n \<Rightarrow> set_detection_name d n m)"

text \<open>
  Two assignments that a caller can make on a detection it has received:
  \<^verbatim>\<open>detection[k] = x\<close>, to a property of the detection itself (the assignment
  \<^verbatim>\<open>detection.name = \<dots>\<close> of \<^verbatim>\<open>removeBomRefFromDetectionNames\<close> is of this kind), and
  \<^verbatim>\<open>detection.evidence.occurrences[0][k] = x\<close>, to a property of the occurrence it carries.
  The occurrence of a copied detection is the occurrence object of the document, so the second
  assignment is written there as well.
\<close>

definition assign_detection :: "detection \<Rightarrow> string \<Rightarrow> json \<Rightarrow> model \<Rightarrow> detection \<times> model" where
  "assign_detection d k x m =
     (case d of
        Shared i \<Rightarrow>
          (Shared i,
           m\<lparr>m_cbom := assign (m_cbom m) ''components''
                (JArr ((components_of (m_cbom m))
                         [i := assign (nth_or_undef (components_of (m_cbom m)) i) k x]))\<rparr>)
      | Copied v i j \<Rightarrow> (Copied (assign v k x) i j, m)
      | Live i \<Rightarrow>
          (Live i,
           m\<lparr>m_liveDetections := (m_liveDetections m)
                [i := assign (nth_or_undef (m_liveDetections m) i) k x]\<rparr>))"

definition set_occurrence :: "json \<Rightarrow> nat \<Rightarrow> string \<Rightarrow> json \<Rightarrow> json" where
  "set_occurrence c j k x =
     assign c ''evidence'' (assign (fld c ''evidence'') ''occurrences''
       (JArr ((occurrences_of c)[j := assign (nth_or_undef (occurrences_of c) j) k x])))"

definition assign_occurrence :: "detection \<Rightarrow> string \<Rightarrow> json \<Rightarrow> model \<Rightarrow> detection \<times> model" where
  "assign_occurrence d k x m =
     (case d of
        Shared i \<Rightarrow>
          (Shared i,
           m\<lparr>m_cbom := assign (m_cbom m) ''components''
                (JArr ((components_of (m_cbom m))
                         [i := set_occurrence (nth_or_undef (components_of (m_cbom m)) i) 0 k x]))\<rparr>)
      | Copied v i j \<Rightarrow>
          (Copied (set_occurrence v 0 k x) i j,
           m\<lparr>m_cbom := assign (m_cbom m) ''components''
                (JArr ((components_of (m_cbom m))
                         [i := set_occurrence (nth_or_undef (components_of (m_cbom m)) i) j k x]))\<rparr>)
      | Live i \<Rightarrow>
          (Live i,
           m\<lparr>m_liveDetections := (m_liveDetections m)
                [i := set_occurrence (nth_or_undef (m_liveDetections m) i) 0 k x]\<rparr>))"

subsection \<open>Notions used in the proofs about the dependency index\<close>

text \<open>The number of times an edge stands in a list of one of the four maps; an index in
  which every edge is mirrored as often as it is recorded; an index that holds top-level
  dependencies only.\<close>

definition cnt_dep :: "dependency_index \<Rightarrow> json \<Rightarrow> json \<Rightarrow> string \<Rightarrow> nat" where
  "cnt_dep idx A B P = count_list (edges_of (dependsMap idx) A) (B, P)"

definition cnt_idep :: "dependency_index \<Rightarrow> json \<Rightarrow> json \<Rightarrow> string \<Rightarrow> nat" where
  "cnt_idep idx B A P = count_list (edges_of (isDependedOnMap idx) B) (A, P)"

definition cnt_prov :: "dependency_index \<Rightarrow> json \<Rightarrow> json \<Rightarrow> string \<Rightarrow> nat" where
  "cnt_prov idx A B P = count_list (edges_of (providesMap idx) A) (B, P)"

definition cnt_iprov :: "dependency_index \<Rightarrow> json \<Rightarrow> json \<Rightarrow> string \<Rightarrow> nat" where
  "cnt_iprov idx B A P = count_list (edges_of (isProvidedByMap idx) B) (A, P)"

definition symmetric_index :: "dependency_index \<Rightarrow> bool" where
  "symmetric_index idx =
     ((\<forall>A B P. cnt_dep idx A B P = cnt_idep idx B A P) \<and>
      (\<forall>A B P. cnt_prov idx A B P = cnt_iprov idx B A P))"

definition explicit_only :: "dependency_index \<Rightarrow> bool" where
  "explicit_only idx =
     (detectionsMap idx = [] \<and>
      (\<forall>A B P. 0 < cnt_dep idx A B P \<longrightarrow> P = ''dependencies.dependsOn''))"

text \<open>The number of edges to \<open>B\<close> with origin \<open>P\<close> that the detection with content \<open>d\<close> adds to
  the list of \<open>A\<close>.\<close>

definition contrib :: "json \<Rightarrow> json \<Rightarrow> json \<Rightarrow> string \<Rightarrow> nat" where
  "contrib d A B P =
     (if hasOwn d ''bom-ref'' = Inr True \<and> fld d ''bom-ref'' = A
      then count_list dependencyPaths P * count_list (elems (resolvePath d P)) B else 0)"

definition known_detections :: "model \<Rightarrow> detection list \<Rightarrow> dependency_index \<Rightarrow> bool" where
  "known_detections m ds idx =
     (\<forall>r det. map_of (detectionsMap idx) r = Some det \<longrightarrow>
        det \<in> set ds \<and> hasOwn (detection_value m det) ''bom-ref'' = Inr True
        \<and> fld (detection_value m det) ''bom-ref'' = r)"

definition stripped_ref :: "detection \<Rightarrow> detection" where
  "stripped_ref d = (case d of Copied v i j \<Rightarrow> Copied (renamed v) i j | _ \<Rightarrow> d)"


section \<open>Concrete states and documents\<close>

text \<open>A state with a given document loaded, no scan running, and no index built yet: the
  state in which \<^verbatim>\<open>setCbom\<close> leaves the application before \<^verbatim>\<open>setDependenciesMap\<close>.\<close>

definition loaded :: "json \<Rightarrow> model" where
  "loaded cbom = \<lparr>m_cbom = cbom, m_isScanning = False, m_liveDetections = [],
                   m_dependencies = None, m_errors = [], m_console = []\<rparr>"

definition nested_example :: json where
  "nested_example =
     JObj [(''a'', JArr [JObj [(''b'', JArr [JNum 1, JNum 2])], JObj [(''b'', JNum 3)],
                         JObj [(''c'', JNum 4)]])]"

definition example_occ1 :: json where
  "example_occ1 = JObj [(''location'', JStr ''A.java''), (''line'', JNum 10)]"

definition example_occ2 :: json where
  "example_occ2 = JObj [(''location'', JStr ''B.java''), (''line'', JNum 20)]"

definition example_r1 :: json where
  "example_r1 =
     JObj [(''type'', JStr ''cryptographic-asset''), (''name'', JStr ''key@r1''),
           (''bom-ref'', JStr ''r1''),
           (''cryptoProperties'',
              JObj [(''relatedCryptoMaterialProperties'', JObj [(''algorithmRef'', JStr ''r2'')])]),
           (''evidence'', JObj [(''occurrences'', JArr [example_occ1, example_occ2])])]"

definition example_r2 :: json where
  "example_r2 =
     JObj [(''type'', JStr ''cryptographic-asset''), (''name'', JStr ''AES@r2''),
           (''bom-ref'', JStr ''r2''), (''cryptoProperties'', JObj [])]"

definition example_cbom :: json where
  "example_cbom =
     JObj [(''bomFormat'', JStr ''CycloneDX''),
           (''components'', JArr [example_r1, example_r2]),
           (''dependencies'',
              JArr [JObj [(''ref'', JStr ''r1''), (''dependsOn'', JArr [JStr ''r2'', JStr ''r9'']),
                          (''provides'', JArr [JStr ''r2''])]])]"

definition example_null_sibling :: json where
  "example_null_sibling = JObj [(''components'', JArr [example_r1, JNull])]"

definition example_stripped :: model where
  "example_stripped =
     (loaded example_cbom)\<lparr>m_cbom := assign example_cbom ''components''
        (JArr [example_r1, assign example_r2 ''name'' (JStr ''AES'')])\<rparr>"

definition example_scenario :: json where
  "example_scenario =
     JObj [(''components'',
        JArr [JObj [(''type'', JStr ''cryptographic-asset''), (''bom-ref'', JStr ''r1''),
                    (''cryptoProperties'',
                       JObj [(''relatedCryptoMaterialProperties'',
                                JObj [(''algorithmRef'', JStr ''r2'')])])],
              JObj [(''type'', JStr ''cryptographic-asset''), (''bom-ref'', JStr ''r2'')]])]"

definition example_scenario_index :: dependency_index where
  "example_scenario_index =
     \<lparr>dependsMap =
        [(JStr ''r1'', [(JStr ''r2'', ''cryptoProperties.relatedCryptoMaterialProperties.algorithmRef'')])],
      isDependedOnMap =
        [(JStr ''r2'', [(JStr ''r1'', ''cryptoProperties.relatedCryptoMaterialProperties.algorithmRef'')])],
      providesMap = [], isProvidedByMap = [],
      detectionsMap = [(JStr ''r1'', Shared 0), (JStr ''r2'', Shared 1)]\<rparr>"



text \<open>A component with one occurrence and a key size that the JSON text gives as \<^verbatim>\<open>1e400\<close>; a
  component whose list of occurrences is empty; the example document while a scan is running.\<close>

definition example_heavy :: json where
  "example_heavy =
     JObj [(''type'', JStr ''cryptographic-asset''), (''bom-ref'', JStr ''r3''),
           (''keySize'', JInfinity True),
           (''evidence'', JObj [(''occurrences'', JArr [example_occ1])])]"

definition example_heavy_cbom :: json where
  "example_heavy_cbom = JObj [(''components'', JArr [example_heavy])]"

definition example_unseen :: json where
  "example_unseen =
     JObj [(''type'', JStr ''cryptographic-asset''), (''name'', JStr ''RSA@r4''),
           (''bom-ref'', JStr ''r4''), (''evidence'', JObj [(''occurrences'', JArr [])])]"

definition example_unseen_cbom :: json where
  "example_unseen_cbom = JObj [(''components'', JArr [example_unseen])]"

definition example_scanning :: model where
  "example_scanning = (loaded example_cbom)\<lparr>m_isScanning := True\<rparr>"

section \<open>Properties of the normalizer\<close>

lemma canon_keys_eq: "canon_keys = [JStr ''hndl'', JStr ''authentication'', JStr ''kml'',
   JStr ''thirdParty'', JStr ''cryptoAgility'', JStr ''governance'']"
  by (simp add: canon_keys_def QUANTUM_VECTOR_DEFINITIONS_def vector_def_def)

lemma static_of_Some_iff: "static_of k \<noteq> None \<longleftrightarrow> k \<in> set canon_keys"
  by (auto simp add: static_of_def canon_keys_def find_None_iff)

lemma default_merged_keys: "map fst default_merged = canon_keys"
  by (simp add: default_merged_def canon_keys_eq defaultQuantumSecurity_def
      QUANTUM_VECTOR_DEFINITIONS_def vector_def_def map_set_def set_props_def)

lemma nc_not_nullish: "\<not> nullish b \<Longrightarrow> \<not> nullish (nc a b)"
  by (simp add: nc_def)

lemma nc_id: "\<not> nullish a \<Longrightarrow> nc a b = a"
  by (simp add: nc_def)

lemma default_merged_wf: "\<forall>(k, e) \<in> set default_merged. wf_entry k e"
  apply (simp add: default_merged_def defaultQuantumSecurity_def
      QUANTUM_VECTOR_DEFINITIONS_def vector_def_def map_set_def set_props_def)
  apply (simp add: wf_entry_def static_of_def QUANTUM_VECTOR_DEFINITIONS_def vector_def_def canon_shape_def
       NOT_ANALYSED_TEXT_def nullish_def)
  done

lemma normal_default: "normal_map default_merged"
  using default_merged_wf default_merged_keys
  by (simp add: normal_map_def canon_keys_eq)

lemma merge_skip: "\<not> truthy v \<or> typeof v \<noteq> ''object'' \<Longrightarrow> merge_vector v M = M"
  by (simp add: merge_vector_def)

lemma vkey_not_nullish: "\<not> nullish (vkey v n)"
  by (simp add: vkey_def nc_def nullish_def)

lemma shape_not_nullish [simp]:
  "\<not> nullish (canon_shape k F D n s sv u nt)" "\<not> nullish (extra_shape k n s sv u nt)"
  by (simp_all add: nullish_def canon_shape_def extra_shape_def)

lemma fld_canon_shape [simp]:
  "fld (canon_shape k F D n s sv u nt) ''id'' = k"
  "fld (canon_shape k F D n s sv u nt) ''name'' = n"
  "fld (canon_shape k F D n s sv u nt) ''status'' = s"
  "fld (canon_shape k F D n s sv u nt) ''severity'' = sv"
  "fld (canon_shape k F D n s sv u nt) ''urgency'' = u"
  "fld (canon_shape k F D n s sv u nt) ''notes'' = nt"
  by (simp_all add: canon_shape_def)

lemma fld_extra_shape [simp]:
  "fld (extra_shape k n s sv u nt) ''id'' = k"
  "fld (extra_shape k n s sv u nt) ''name'' = n"
  "fld (extra_shape k n s sv u nt) ''status'' = s"
  "fld (extra_shape k n s sv u nt) ''severity'' = sv"
  "fld (extra_shape k n s sv u nt) ''urgency'' = u"
  "fld (extra_shape k n s sv u nt) ''notes'' = nt"
  by (simp_all add: extra_shape_def)

lemma set_props_canon:
  "JObj (set_props (spread (canon_shape k F D n s sv u nt))
     [(''name'', n'), (''status'', s'), (''severity'', sv'), (''urgency'', u'), (''notes'', nt')])
   = canon_shape k F D n' s' sv' u' nt'"
  by (simp add: canon_shape_def set_props_def)

lemma set_props_extra:
  "JObj (set_props (spread (extra_shape k n s sv u nt))
     [(''name'', n'), (''status'', s'), (''severity'', sv'), (''urgency'', u'), (''notes'', nt')])
   = extra_shape k n' s' sv' u' nt'"
  by (simp add: extra_shape_def set_props_def)

lemma extra_shape_eq:
  "JObj [(''id'', k), (''name'', n), (''status'', s), (''severity'', sv), (''urgency'', u), (''notes'', nt)]
   = extra_shape k n s sv u nt"
  by (simp add: extra_shape_def)

lemma merge_vector_vkey:
  assumes "truthy v" "typeof v = ''object''"
  shows "merge_vector v M =
    (let id = vkey v (length M);
         base = nc (map_get M id) (extra_shape id (nc (fld v ''name'') id)
                   NOT_ANALYSED_TEXT NOT_ANALYSED_TEXT NOT_ANALYSED_TEXT NOT_ANALYSED_TEXT)
     in AList.update id
             (JObj (set_props (spread base)
                [(''name'', nc (fld v ''name'') (fld base ''name'')),
                 (''status'', nc (fld v ''status'') (fld base ''status'')),
                 (''severity'', nc (fld v ''severity'') (fld base ''severity'')),
                 (''urgency'', nc (fld v ''urgency'') (fld base ''urgency'')),
                 (''notes'', nc (fld v ''notes'') (fld base ''notes''))])) M)"
  using assms unfolding merge_vector_def vkey_def map_set_def extra_shape_def by simp

lemma nc_nc: "nc a (nc a b) = nc a b"
  by (simp add: nc_def)

lemma merge_canon:
  assumes "truthy v" "typeof v = ''object''"
    and "map_of M (vkey v (length M)) = Some (canon_shape k F D n s sv u nt)"
  shows "merge_vector v M = AList.update (vkey v (length M))
           (canon_shape k F D (nc (fld v ''name'') n) (nc (fld v ''status'') s)
              (nc (fld v ''severity'') sv) (nc (fld v ''urgency'') u) (nc (fld v ''notes'') nt)) M"
proof -
  have "nc (map_get M (vkey v (length M))) x = canon_shape k F D n s sv u nt" for x
    using assms(3) by (simp add: map_get_def nc_id)
  then show ?thesis
    by (simp only: merge_vector_vkey[OF assms(1,2)] Let_def fld_canon_shape set_props_canon)
qed

lemma merge_extra:
  assumes "truthy v" "typeof v = ''object''"
    and "map_of M (vkey v (length M)) = Some (extra_shape k n s sv u nt)"
  shows "merge_vector v M = AList.update (vkey v (length M))
           (extra_shape k (nc (fld v ''name'') n) (nc (fld v ''status'') s)
              (nc (fld v ''severity'') sv) (nc (fld v ''urgency'') u) (nc (fld v ''notes'') nt)) M"
proof -
  have "nc (map_get M (vkey v (length M))) x = extra_shape k n s sv u nt" for x
    using assms(3) by (simp add: map_get_def nc_id)
  then show ?thesis
    by (simp only: merge_vector_vkey[OF assms(1,2)] Let_def fld_extra_shape set_props_extra)
qed

lemma merge_new:
  assumes "truthy v" "typeof v = ''object''"
    and "map_of M (vkey v (length M)) = None"
  shows "merge_vector v M = AList.update (vkey v (length M))
           (extra_shape (vkey v (length M)) (nc (fld v ''name'') (vkey v (length M)))
              (nc (fld v ''status'') NOT_ANALYSED_TEXT)
              (nc (fld v ''severity'') NOT_ANALYSED_TEXT) (nc (fld v ''urgency'') NOT_ANALYSED_TEXT)
              (nc (fld v ''notes'') NOT_ANALYSED_TEXT)) M"
proof -
  have "nc (map_get M (vkey v (length M))) x = x" for x
    using assms(3) by (simp add: map_get_def nc_def nullish_def)
  then show ?thesis
    by (simp only: merge_vector_vkey[OF assms(1,2)] Let_def fld_extra_shape set_props_extra nc_nc)
qed

lemma wf_entry_cases:
  assumes "wf_entry k e"
  obtains (canon) F D n s sv u nt where "static_of k = Some (F, D)" "e = canon_shape k F D n s sv u nt"
      "\<not> nullish n" "\<not> nullish s" "\<not> nullish sv" "\<not> nullish u" "\<not> nullish nt"
  | (extra) n s sv u nt where "static_of k = None" "\<not> nullish k" "e = extra_shape k n s sv u nt"
      "\<not> nullish n" "\<not> nullish s" "\<not> nullish sv" "\<not> nullish u" "\<not> nullish nt"
  using assms unfolding wf_entry_def by (cases "static_of k") auto

lemma wf_canonI:
  "static_of k = Some (F, D) \<Longrightarrow> \<not> nullish n \<Longrightarrow> \<not> nullish s \<Longrightarrow> \<not> nullish sv \<Longrightarrow> \<not> nullish u
   \<Longrightarrow> \<not> nullish nt \<Longrightarrow> wf_entry k (canon_shape k F D n s sv u nt)"
  unfolding wf_entry_def by simp blast

lemma wf_extraI:
  "static_of k = None \<Longrightarrow> \<not> nullish k \<Longrightarrow> \<not> nullish n \<Longrightarrow> \<not> nullish s \<Longrightarrow> \<not> nullish sv \<Longrightarrow> \<not> nullish u
   \<Longrightarrow> \<not> nullish nt \<Longrightarrow> wf_entry k (extra_shape k n s sv u nt)"
  unfolding wf_entry_def by simp blast

lemma wf_entry_id: "wf_entry k e \<Longrightarrow> fld e ''id'' = k"
  by (erule wf_entry_cases) simp_all

lemma NA_not_nullish [simp]: "\<not> nullish NOT_ANALYSED_TEXT"
  by (simp add: NOT_ANALYSED_TEXT_def nullish_def)

lemma normal_canon_in_keys:
  assumes "normal_map M" "static_of k \<noteq> None"
  shows "k \<in> set (map fst M)"
proof -
  have "k \<in> set canon_keys"
    using assms(2) by (simp only: static_of_Some_iff)
  then have "k \<in> set (take 6 (map fst M))"
    using assms(1) by (simp only: normal_map_def)
  then show ?thesis by (rule in_set_takeD)
qed

lemma take6_update:
  assumes "take 6 (map fst M) = canon_keys"
  shows "take 6 (map fst (AList.update k e M)) = canon_keys"
proof -
  have "length (take 6 (map fst M)) = 6"
    by (simp only: assms) (simp add: canon_keys_eq)
  then have "6 \<le> length (map fst M)"
    by simp
  then show ?thesis using assms by (simp add: update_keys)
qed

lemma set_update_cases:
  "x \<in> set (AList.update k v M) \<Longrightarrow> x = (k, v) \<or> x \<in> set M"
  by (induction M) (auto split: if_splits)

lemma update_append_notin:
  "k \<notin> fst ` set A \<Longrightarrow> AList.update k v (A @ C) = A @ AList.update k v C"
  by (induction A) auto

lemma map_of_append_notin:
  "k \<notin> fst ` set A \<Longrightarrow> map_of (A @ C) k = map_of C k"
  by (induction A) auto

lemma normal_update:
  assumes "normal_map M" "wf_entry k e"
  shows "normal_map (AList.update k e M)"
  unfolding normal_map_def
proof (intro conjI)
  show "distinct (map fst (AList.update k e M))"
    using assms(1) by (simp add: normal_map_def distinct_update)
  show "take 6 (map fst (AList.update k e M)) = canon_keys"
    using assms(1) by (simp add: normal_map_def take6_update)
  show "\<forall>(k', e') \<in> set (AList.update k e M). wf_entry k' e'"
  proof (clarify)
    fix k' e' assume "(k', e') \<in> set (AList.update k e M)"
    then have "(k', e') = (k, e) \<or> (k', e') \<in> set M" by (rule set_update_cases)
    then show "wf_entry k' e'"
      using assms by (auto simp add: normal_map_def)
  qed
qed

lemma normal_step:
  assumes "normal_map M"
  shows "normal_map (merge_vector v M)"
proof (cases "truthy v \<and> typeof v = ''object''")
  case False
  then show ?thesis using assms by (simp add: merge_skip)
next
  case True
  then have tv: "truthy v" and ty: "typeof v = ''object''" by simp_all
  let ?k = "vkey v (length M)"
  show ?thesis
  proof (cases "map_of M ?k")
    case None
    have "?k \<notin> set (map fst M)"
      using None by (simp add: map_of_eq_None_iff)
    then have st: "static_of ?k = None"
      using normal_canon_in_keys[OF assms] by blast
    have "wf_entry ?k (extra_shape ?k (nc (fld v ''name'') ?k)
              (nc (fld v ''status'') NOT_ANALYSED_TEXT)
              (nc (fld v ''severity'') NOT_ANALYSED_TEXT) (nc (fld v ''urgency'') NOT_ANALYSED_TEXT)
              (nc (fld v ''notes'') NOT_ANALYSED_TEXT))"
      by (intro wf_extraI st vkey_not_nullish nc_not_nullish NA_not_nullish)
    then show ?thesis
      by (simp only: merge_new[OF tv ty None] normal_update[OF assms])
  next
    case (Some b)
    then have "(?k, b) \<in> set M" by (rule map_of_SomeD)
    then have "wf_entry ?k b" using assms by (auto simp add: normal_map_def)
    then show ?thesis
    proof (cases rule: wf_entry_cases)
      case (canon F D n s sv u nt)
      have "wf_entry ?k (canon_shape ?k F D (nc (fld v ''name'') n) (nc (fld v ''status'') s)
              (nc (fld v ''severity'') sv) (nc (fld v ''urgency'') u) (nc (fld v ''notes'') nt))"
        by (intro wf_canonI canon nc_not_nullish)
      moreover have "map_of M ?k = Some (canon_shape ?k F D n s sv u nt)"
        using Some canon by simp
      ultimately show ?thesis
        by (simp only: merge_canon[OF tv ty] normal_update[OF assms])
    next
      case (extra n s sv u nt)
      have "wf_entry ?k (extra_shape ?k (nc (fld v ''name'') n) (nc (fld v ''status'') s)
              (nc (fld v ''severity'') sv) (nc (fld v ''urgency'') u) (nc (fld v ''notes'') nt))"
        by (intro wf_extraI extra nc_not_nullish)
      moreover have "map_of M ?k = Some (extra_shape ?k n s sv u nt)"
        using Some extra by simp
      ultimately show ?thesis
        by (simp only: merge_extra[OF tv ty] normal_update[OF assms])
    qed
  qed
qed

lemma normal_fold: "normal_map M \<Longrightarrow> normal_map (fold merge_vector vs M)"
  by (induction vs arbitrary: M) (simp_all add: normal_step)

lemma canon_key_not_nullish: "static_of k \<noteq> None \<Longrightarrow> \<not> nullish k"
  by (simp only: static_of_Some_iff) (auto simp add: canon_keys_eq nullish_def)

lemma wf_entry_key_not_nullish: "wf_entry k e \<Longrightarrow> \<not> nullish k"
  by (erule wf_entry_cases) (simp_all add: canon_key_not_nullish)

lemma wf_entry_object: "wf_entry k e \<Longrightarrow> truthy e \<and> typeof e = ''object''"
  by (erule wf_entry_cases) (simp_all add: canon_shape_def extra_shape_def)

lemma wf_entry_vkey: "wf_entry k e \<Longrightarrow> vkey e n = k"
  by (simp add: vkey_def wf_entry_id wf_entry_key_not_nullish nc_id)

lemma length_default_merged: "length default_merged = 6"
proof -
  have "length (map fst default_merged) = 6"
    by (simp only: default_merged_keys) (simp add: canon_keys_eq)
  then show ?thesis by simp
qed

lemma merge_wf_canon:
  assumes "wf_entry k e" "static_of k \<noteq> None" "map_of S k = Some d" "wf_entry k d"
  shows "merge_vector e S = AList.update k e S"
proof -
  obtain F D where st: "static_of k = Some (F, D)" using assms(2) by auto
  obtain n s sv u nt where e: "e = canon_shape k F D n s sv u nt"
    and nn: "\<not> nullish n" "\<not> nullish s" "\<not> nullish sv" "\<not> nullish u" "\<not> nullish nt"
    using assms(1) st by (auto elim: wf_entry_cases)
  obtain n' s' sv' u' nt' where d: "d = canon_shape k F D n' s' sv' u' nt'"
    using assms(4) st by (auto elim: wf_entry_cases)
  have k: "vkey e (length S) = k" using assms(1) by (rule wf_entry_vkey)
  have m: "map_of S (vkey e (length S)) = Some (canon_shape k F D n' s' sv' u' nt')"
    using assms(3) d k by simp
  have o: "truthy e" "typeof e = ''object''" using wf_entry_object[OF assms(1)] by simp_all
  show ?thesis
    unfolding merge_canon[OF o m] k by (simp add: e nn nc_id)
qed

lemma merge_wf_extra:
  assumes "wf_entry k e" "static_of k = None" "map_of S k = None"
  shows "merge_vector e S = AList.update k e S"
proof -
  obtain n s sv u nt where e: "e = extra_shape k n s sv u nt"
    and nn: "\<not> nullish n" "\<not> nullish s" "\<not> nullish sv" "\<not> nullish u" "\<not> nullish nt"
    using assms(1,2) by (auto elim: wf_entry_cases)
  have k: "vkey e (length S) = k" using assms(1) by (rule wf_entry_vkey)
  have m: "map_of S (vkey e (length S)) = None"
    using assms(3) k by simp
  have o: "truthy e" "typeof e = ''object''" using wf_entry_object[OF assms(1)] by simp_all
  show ?thesis
    unfolding merge_new[OF o m] k by (simp add: e nn nc_id)
qed

lemma renormalize_suffix:
  assumes "normal_map (A @ B)"
  shows "fold merge_vector (map snd B) (A @ drop (length A) default_merged) = A @ B"
  using assms
proof (induction B arbitrary: A)
  case Nil
  then have "take 6 (map fst A) = canon_keys" by (simp add: normal_map_def)
  then have "length (take 6 (map fst A)) = 6" by (simp add: canon_keys_eq)
  then have "6 \<le> length A" by simp
  then show ?case by (simp add: length_default_merged)
next
  case (Cons p B)
  obtain k e where p: "p = (k, e)" by (cases p)
  let ?S = "A @ drop (length A) default_merged"
  have nm: "normal_map (A @ (k, e) # B)" using Cons.prems p by simp
  have wf: "wf_entry k e" using nm by (simp add: normal_map_def)
  have notin: "k \<notin> fst ` set A" using nm by (auto simp add: normal_map_def)
  have keys: "take 6 (map fst A @ k # map fst B) = canon_keys"
    using nm by (simp add: normal_map_def)
  have step: "merge_vector e ?S = (A @ [(k, e)]) @ drop (length (A @ [(k, e)])) default_merged"
  proof (cases "length A < 6")
    case True
    then have lt: "length A < length default_merged" by (simp add: length_default_merged)
    have "canon_keys ! length A = take 6 (map fst A @ k # map fst B) ! length A"
      by (simp only: keys)
    also have "\<dots> = (map fst A @ k # map fst B) ! length A"
      using True by (rule nth_take)
    finally have ck: "canon_keys ! length A = k" by (simp add: nth_append)
    have "fst (default_merged ! length A) = k"
      using ck lt by (subst nth_map[symmetric, of _ _ fst]) (simp_all add: default_merged_keys)
    then obtain d where dm: "default_merged ! length A = (k, d)"
      by (cases "default_merged ! length A") simp
    have dr: "drop (length A) default_merged = (k, d) # drop (Suc (length A)) default_merged"
      using Cons_nth_drop_Suc[OF lt] dm by simp
    have "(k, d) \<in> set default_merged" using lt dm by (metis nth_mem)
    then have wd: "wf_entry k d" using default_merged_wf by auto
    have "k \<in> set canon_keys" using ck True by (metis nth_mem canon_keys_eq length_default_merged 
          default_merged_keys length_map)
    then have st: "static_of k \<noteq> None" by (simp only: static_of_Some_iff)
    have "map_of ?S k = map_of (drop (length A) default_merged) k"
      using notin by (rule map_of_append_notin)
    then have "map_of ?S k = Some d"
      by (simp add: dr)
    with wf st have "merge_vector e ?S = AList.update k e ?S"
      using wd by (rule merge_wf_canon)
    also have "\<dots> = A @ (k, e) # drop (Suc (length A)) default_merged"
      using notin by (simp add: update_append_notin dr)
    finally show ?thesis by simp
  next
    case False
    then have ge: "6 \<le> length A" by simp
    then have dr: "drop (length A) default_merged = []" by (simp add: length_default_merged)
    have "take 6 (map fst A) = canon_keys" using keys ge by simp
    then have "set canon_keys \<subseteq> set (map fst A)" by (metis set_take_subset)
    then have "k \<notin> set canon_keys" using notin by auto
    then have st: "static_of k = None" using static_of_Some_iff by blast
    have "map_of ?S k = map_of (drop (length A) default_merged) k"
      using notin by (rule map_of_append_notin)
    then have mo: "map_of ?S k = None" by (simp add: dr)
    have "merge_vector e ?S = AList.update k e ?S"
      using wf st mo by (rule merge_wf_extra)
    also have "\<dots> = A @ [(k, e)]"
      using notin update_append_notin[of k A e "[]"] by (simp add: dr)
    finally show ?thesis using ge by (simp add: length_default_merged)
  qed
  have "fold merge_vector (map snd (p # B)) ?S = fold merge_vector (map snd B) (merge_vector e ?S)"
    by (simp add: p)
  also have "\<dots> = (A @ [(k, e)]) @ B"
    unfolding step using nm by (intro Cons.IH) simp
  finally show ?case by (simp add: p)
qed

lemma renormalize: "normal_map M \<Longrightarrow> fold merge_vector (map snd M) default_merged = M"
  using renormalize_suffix[of "[]" M] by simp

lemma default_vectors: "fld defaultQuantumSecurity ''vectors'' = JArr (map snd default_merged)"
  by (simp add: default_merged_def defaultQuantumSecurity_def
      QUANTUM_VECTOR_DEFINITIONS_def vector_def_def map_set_def set_props_def)

lemma default_qtrl_ok: "qtrl_ok (fld defaultQuantumSecurity ''qtrl'')"
  by (simp add: defaultQuantumSecurity_def qtrl_ok_def)

lemma default_risk_ok: "risk_ok (fld defaultQuantumSecurity ''riskModel'')"
  by (simp add: defaultQuantumSecurity_def risk_ok_def default_levels_def)

lemma default_shape:
  "defaultQuantumSecurity = JObj [(''qtrl'', fld defaultQuantumSecurity ''qtrl''),
     (''vectors'', fld defaultQuantumSecurity ''vectors''),
     (''riskModel'', fld defaultQuantumSecurity ''riskModel'')]"
  by (simp add: defaultQuantumSecurity_def)

lemma normalizeVectors_default:
  "normalizeVectors c (fld defaultQuantumSecurity ''vectors'') =
     JArr (map snd (if isArray c then fold merge_vector (elems c) default_merged else default_merged))"
  by (simp add: normalizeVectors_def default_merged_def)

lemma normalizeVectors_normal:
  "\<exists>M. normal_map M \<and> normalizeVectors c (fld defaultQuantumSecurity ''vectors'') = JArr (map snd M)"
  unfolding normalizeVectors_default
  using normal_fold[OF normal_default] normal_default by auto

lemma normalizeQtrl_ok: "qtrl_ok fb \<Longrightarrow> qtrl_ok (normalizeQtrl c fb)"
  unfolding normalizeQtrl_def qtrl_ok_def
  by (auto simp add: nc_not_nullish)

lemma normalizeRiskModel_ok: "risk_ok fb \<Longrightarrow> risk_ok (normalizeRiskModel c fb)"
  unfolding normalizeRiskModel_def risk_ok_def
  by (auto simp add: nc_not_nullish)

lemma normalizeQtrl_fix: "qtrl_ok q \<Longrightarrow> normalizeQtrl q fb = q"
  unfolding normalizeQtrl_def qtrl_ok_def
  by (auto simp add: nc_id)

lemma normalizeRiskModel_fix: "risk_ok r \<Longrightarrow> normalizeRiskModel r fb = r"
  unfolding normalizeRiskModel_def risk_ok_def
  by (auto simp add: nc_id)

lemma normalizeVectors_fix:
  "normal_map M \<Longrightarrow> normalizeVectors (JArr (map snd M)) (fld defaultQuantumSecurity ''vectors'') = JArr (map snd M)"
  unfolding normalizeVectors_default by (simp add: renormalize)

lemma quantum_ok_default: "quantum_ok defaultQuantumSecurity"
  unfolding quantum_ok_def
  using default_qtrl_ok default_risk_ok normal_default default_vectors default_shape
  by metis

lemma getQuantumSecurityFromCbom_ok: "quantum_ok (getQuantumSecurityFromCbom cbom)"
proof -
  have "quantum_ok (JObj [(''qtrl'', normalizeQtrl a (fld defaultQuantumSecurity ''qtrl'')),
          (''vectors'', normalizeVectors b (fld defaultQuantumSecurity ''vectors'')),
          (''riskModel'', normalizeRiskModel c (fld defaultQuantumSecurity ''riskModel''))])" for a b c
    unfolding quantum_ok_def
    using normalizeVectors_normal[of b] normalizeQtrl_ok[OF default_qtrl_ok, of a]
      normalizeRiskModel_ok[OF default_risk_ok, of c] by auto
  then show ?thesis
    unfolding getQuantumSecurityFromCbom_def Let_def
    by (simp add: quantum_ok_default)
qed

lemma quantum_ok_fix:
  assumes "quantum_ok x" "truthy c" "typeof c = ''object''" "fld c ''quantumSecurity'' = x"
  shows "getQuantumSecurityFromCbom c = x"
proof -
  obtain q M r where ok: "qtrl_ok q" "normal_map M" "risk_ok r"
    and x: "x = JObj [(''qtrl'', q), (''vectors'', JArr (map snd M)), (''riskModel'', r)]"
    using assms(1) unfolding quantum_ok_def by blast
  show ?thesis
    unfolding getQuantumSecurityFromCbom_def Let_def
    using assms(2,3,4) 
    by (simp add: x normalizeQtrl_fix[OF ok(1)] normalizeVectors_fix[OF ok(2)] normalizeRiskModel_fix[OF ok(3)])
qed

lemma find_NA: "find_vector_def NOT_ANALYSED_TEXT = None"
  by (simp add: find_vector_def_def NOT_ANALYSED_TEXT_def QUANTUM_VECTOR_DEFINITIONS_def vector_def_def)

lemma defaultAssessment_ok: "assessment_ok defaultAssessment"
  unfolding assessment_ok_def defaultAssessment_def
  by (intro exI[of _ NOT_ANALYSED_TEXT]) (simp add: find_NA)

lemma getComponentQuantumAssessment_ok: "assessment_ok (getComponentQuantumAssessment asset)"
proof -
  have "assessment_ok (JObj [(''vector'', nc a NOT_ANALYSED_TEXT),
          (''severity'', nc b NOT_ANALYSED_TEXT), (''urgency'', nc c NOT_ANALYSED_TEXT),
          (''notes'', nc d NOT_ANALYSED_TEXT),
          (''vectorName'', case find_vector_def (nc a NOT_ANALYSED_TEXT) of
                 Some vd \<Rightarrow> fld vd ''name'' | None \<Rightarrow> nc a NOT_ANALYSED_TEXT)])" for a b c d
    unfolding assessment_ok_def
    by (intro exI[of _ "nc a NOT_ANALYSED_TEXT"] exI[of _ "nc b NOT_ANALYSED_TEXT"]
        exI[of _ "nc c NOT_ANALYSED_TEXT"] exI[of _ "nc d NOT_ANALYSED_TEXT"])
       (simp add: nc_not_nullish)
  then show ?thesis
    unfolding getComponentQuantumAssessment_def Let_def
    by (simp add: defaultAssessment_ok)
qed

lemma assessment_ok_fix:
  assumes "assessment_ok a" "objlike asset" "objlike (fld asset ''cryptoProperties'')"
    "fld (fld asset ''cryptoProperties'') ''quantumAssessment'' = a"
  shows "getComponentQuantumAssessment asset = a"
proof -
  obtain v s u n where nn: "\<not> nullish v" "\<not> nullish s" "\<not> nullish u" "\<not> nullish n"
    and a: "a = JObj [(''vector'', v), (''severity'', s), (''urgency'', u), (''notes'', n),
               (''vectorName'', case find_vector_def v of Some d \<Rightarrow> fld d ''name'' | None \<Rightarrow> v)]"
    using assms(1) unfolding assessment_ok_def by blast
  have f: "fld a ''vector'' = v" "fld a ''severity'' = s" "fld a ''urgency'' = u" "fld a ''notes'' = n"
    "truthy a" "typeof a = ''object''"
    by (simp_all add: a)
  show ?thesis
    unfolding getComponentQuantumAssessment_def Let_def
    using assms(2,3) unfolding objlike_def assms(4)
    by (simp add: f nn nc_id split: option.splits) (simp add: a)
qed















lemma normal_ids: "normal_map M \<Longrightarrow> map (\<lambda>e. fld e ''id'') (map snd M) = map fst M"
  by (rule map_idI[THEN trans[rotated], symmetric, rotated]) (auto simp add: normal_map_def wf_entry_id)







section \<open>Documents that are not objects, and the default block\<close>

lemma digit_in: "k < 10 \<Longrightarrow> digit k \<in> set ''0123456789''"
  unfolding digit_def by (rule nth_mem) simp

lemma dec_chars: "c \<in> set (dec n) \<Longrightarrow> c \<in> set ''0123456789''"
proof (induction n rule: dec.induct)
  case (1 n)
  show ?case
  proof (cases "n < 10")
    case True
    then have "dec n = [digit n]" by (subst dec.simps) simp
    then show ?thesis using "1.prems" digit_in[OF True] by simp
  next
    case False
    then have "dec n = dec (n div 10) @ [digit (n mod 10)]" by (subst dec.simps) simp
    moreover have "digit (n mod 10) \<in> set ''0123456789''" by (rule digit_in) simp
    ultimately show ?thesis using "1.prems" "1.IH"[OF False] by auto
  qed
qed

lemma not_index: "c \<in> set k \<Longrightarrow> c \<notin> set ''0123456789'' \<Longrightarrow> k \<notin> set (map dec ns)"
  using dec_chars by auto

lemma hasOwn_components_primitive:
  assumes "typeof v \<noteq> ''object''" "v \<noteq> JUndef"
  shows "hasOwn v ''components'' = Inr False"
proof -
  have A: "''components'' \<notin> set (map dec ns)" for ns
    by (rule not_index[of "CHR ''c''"]) simp_all
  show ?thesis
  proof (cases v)
    case (JStr s)
    have "hasOwn (JStr s) ''components'' =
        Inr (''components'' = ''length'' \<or> ''components'' \<in> set (map dec [0..<length s]))"
      by (simp only: hasOwn.simps)
    then show ?thesis using A[of "[0..<length s]"] JStr by (simp del: set_map set_upt)
  qed (use assms in simp_all)
qed

lemma detections_try_not_object:
  assumes "cbom = JNull \<or> cbom = JUndef \<or> typeof cbom \<noteq> ''object''"
  shows "detections_try cbom = Inr []"
proof (cases "cbom = JNull \<or> cbom = JUndef")
  case True
  then show ?thesis by (auto simp add: detections_try_def)
next
  case False
  then have "hasOwn cbom ''components'' = Inr False"
    using assms hasOwn_components_primitive by blast
  then show ?thesis using False by (simp add: detections_try_def)
qed

lemma quantum_not_object:
  assumes "cbom = JNull \<or> cbom = JUndef \<or> typeof cbom \<noteq> ''object''"
  shows "getQuantumSecurityFromCbom cbom = defaultQuantumSecurity"
  using assms by (auto simp add: getQuantumSecurityFromCbom_def)

lemma quantum_absent:
  "map_of kvs ''quantumSecurity'' = None \<Longrightarrow> getQuantumSecurityFromCbom (JObj kvs) = defaultQuantumSecurity"
  by (simp add: getQuantumSecurityFromCbom_def)

lemma default_merged_fields:
  "map (\<lambda>e. (fld e ''status'', fld e ''severity'', fld e ''urgency'', fld e ''notes'')) (map snd default_merged)
     = replicate 6 (NOT_ANALYSED_TEXT, NOT_ANALYSED_TEXT, NOT_ANALYSED_TEXT, NOT_ANALYSED_TEXT)"
  by (simp add: default_merged_def defaultQuantumSecurity_def
      QUANTUM_VECTOR_DEFINITIONS_def vector_def_def map_set_def set_props_def numeral_eq_Suc)

lemma default_scales:
  "fld defaultQuantumSecurity ''riskModel'' =
     JObj [(''severityLevels'', default_levels), (''urgencyLevels'', default_levels), (''notes'', NOT_ANALYSED_TEXT)]"
  "fld defaultQuantumSecurity ''qtrl'' =
     JObj [(''level'', NOT_ANALYSED_TEXT), (''name'', NOT_ANALYSED_TEXT), (''conditions'', NOT_ANALYSED_TEXT)]"
  by (simp_all add: defaultQuantumSecurity_def)

lemma default_block_vectors:
  "map (\<lambda>e. fld e ''id'') (elems (fld defaultQuantumSecurity ''vectors'')) = canon_keys"
  "e \<in> set (elems (fld defaultQuantumSecurity ''vectors'')) \<Longrightarrow>
     fld e ''status'' = NOT_ANALYSED_TEXT \<and> fld e ''severity'' = NOT_ANALYSED_TEXT
     \<and> fld e ''urgency'' = NOT_ANALYSED_TEXT \<and> fld e ''notes'' = NOT_ANALYSED_TEXT"
proof -
  show "map (\<lambda>e. fld e ''id'') (elems (fld defaultQuantumSecurity ''vectors'')) = canon_keys"
    using normal_ids[OF normal_default] by (simp add: default_vectors default_merged_keys)
  assume "e \<in> set (elems (fld defaultQuantumSecurity ''vectors''))"
  then have "e \<in> set (map snd default_merged)" by (simp add: default_vectors)
  then have "(\<lambda>e. (fld e ''status'', fld e ''severity'', fld e ''urgency'', fld e ''notes'')) e
      \<in> (\<lambda>e. (fld e ''status'', fld e ''severity'', fld e ''urgency'', fld e ''notes'')) ` set (map snd default_merged)"
    by (rule imageI)
  then have "(fld e ''status'', fld e ''severity'', fld e ''urgency'', fld e ''notes'')
      \<in> set (map (\<lambda>e. (fld e ''status'', fld e ''severity'', fld e ''urgency'', fld e ''notes'')) (map snd default_merged))"
    by (simp only: set_map)
  then show "fld e ''status'' = NOT_ANALYSED_TEXT \<and> fld e ''severity'' = NOT_ANALYSED_TEXT
     \<and> fld e ''urgency'' = NOT_ANALYSED_TEXT \<and> fld e ''notes'' = NOT_ANALYSED_TEXT"
    unfolding default_merged_fields by simp
qed

section \<open>Properties of the path resolver\<close>

lemma traverse_result: "traverse v p = JUndef \<or> (\<exists>ys. traverse v p = JArr ys)"
proof (induction v p rule: traverse.induct)
  case (1 currentObj)
  then show ?case by (cases currentObj) simp_all
next
  case (3 kvs key nextPath)
  then show ?case by (cases "map_of kvs key") simp_all
qed simp_all

lemma length_flat:
  "(\<forall>r \<in> set rs. r = JUndef \<or> (\<exists>ys. r = JArr ys)) \<Longrightarrow>
   length (flat (filter (\<lambda>r. r \<noteq> JUndef) rs)) = sum_list (map out_len rs)"
  by (induction rs) (auto simp add: flat_def out_len_def)

lemma traverse_count: "out_len (traverse v p) = count_leaves v p"
proof (induction v p rule: traverse.induct)
  case (1 currentObj)
  then show ?case by (cases currentObj) (simp_all add: out_len_def)
next
  case (2 xs key nextPath)
  have "length (flat (filter (\<lambda>r. r \<noteq> JUndef) (map (\<lambda>item. traverse item (key # nextPath)) xs)))
      = sum_list (map out_len (map (\<lambda>item. traverse item (key # nextPath)) xs))"
    by (rule length_flat) (use traverse_result in auto)
  also have "\<dots> = sum_list (map (\<lambda>item. count_leaves item (key # nextPath)) xs)"
    using 2 by (simp add: comp_def cong: map_cong)
  finally show ?case by (simp add: out_len_def)
next
  case (3 kvs key nextPath)
  then show ?case by (cases "map_of kvs key") (simp_all add: out_len_def)
qed (simp_all add: out_len_def)

lemma traverse_undef_iff: "traverse v p = JUndef \<longleftrightarrow> absent_before_array v p"
proof (induction v p rule: traverse.induct)
  case (1 currentObj)
  then show ?case by (cases currentObj) simp_all
next
  case (3 kvs key nextPath)
  then show ?case by (cases "map_of kvs key") simp_all
qed simp_all

lemma split_examples:
  "split_on CHR ''.'' ''x.b'' = [''x'', ''b'']" "split_on CHR ''.'' ''a.b'' = [''a'', ''b'']"
  by simp_all

section \<open>Properties of the flattener\<close>

lemma json_exact_not_undef: "json_exact v \<Longrightarrow> v \<noteq> JUndef"
  by auto

lemma clone_id: "json_exact v \<Longrightarrow> clone v = v"
proof (induction v)
  case (JArr xs)
  have "x \<in> set xs \<Longrightarrow> x \<noteq> JUndef" for x
    using JArr.prems by (auto simp add: list_all_iff)
  moreover have "x \<in> set xs \<Longrightarrow> clone x = x" for x
    using JArr by (simp add: list_all_iff)
  ultimately have "map (\<lambda>x. if x = JUndef then JNull else clone x) xs = xs"
    by (intro map_idI) simp
  then show ?case by simp
next
  case (JObj kvs)
  have "filter (\<lambda>kv. snd kv \<noteq> JUndef) kvs = kvs"
    using JObj.prems by (intro filter_True) (auto simp add: list_all_iff dest: json_exact_not_undef)
  moreover have "map (\<lambda>kv. (fst kv, clone (snd kv))) kvs = kvs"
    using JObj by (auto simp add: list_all_iff intro!: map_idI)
  ultimately show ?case by simp
qed simp_all

lemma hasOwn_True_obj:
  assumes "hasOwn v k = Inr True" "k \<noteq> ''length''" "c \<in> set k" "c \<notin> set ''0123456789''"
  shows "\<exists>kvs. v = JObj kvs \<and> k \<in> fst ` set kvs"
proof -
  have A: "k \<notin> set (map dec ns)" for ns
    using assms(3,4) by (rule not_index)
  show ?thesis
  proof (cases v)
    case (JStr s)
    have "hasOwn (JStr s) k = Inr (k = ''length'' \<or> k \<in> set (map dec [0..<length s]))"
      by (simp only: hasOwn.simps)
    then show ?thesis using A[of "[0..<length s]"] JStr assms(1,2) by (simp del: set_map set_upt)
  next
    case (JArr xs)
    have "hasOwn (JArr xs) k = Inr (k = ''length'' \<or> k \<in> set (map dec [0..<length xs]))"
      by (simp only: hasOwn.simps)
    then show ?thesis using A[of "[0..<length xs]"] JArr assms(1,2) by (simp del: set_map set_upt)
  qed (use assms(1) in simp_all)
qed

lemma is_asset_obj: "is_asset c \<Longrightarrow> \<exists>kvs. c = JObj kvs"
  using hasOwn_True_obj[of c "''type''" "CHR ''t''"] by (auto simp add: is_asset_def)

lemma has_occurrences_obj:
  assumes "has_occurrences c = Inr True"
  shows "\<exists>ekvs. fld c ''evidence'' = JObj ekvs"
proof -
  have "hasOwn (fld c ''evidence'') ''occurrences'' = Inr True"
    using assms by (auto simp add: has_occurrences_def split: sum.splits bool.splits)
  then show ?thesis
    using hasOwn_True_obj[of "fld c ''evidence''" "''occurrences''" "CHR ''o''"] by auto
qed

lemma fld_assign: "fld (assign (JObj kvs) k v) k' = (if k' = k then v else fld (JObj kvs) k')"
  by (simp add: update_conv')

lemma map_enumerate:
  "map (\<lambda>(j, x). g j x) (enumerate 0 xs) = map (\<lambda>j. g j (xs ! j)) [0..<length xs]"
  by (rule nth_equalityI) (simp_all add: nth_enumerate_eq)

lemma comp_asset_occ:
  assumes "is_asset c" "has_occurrences c = Inr True"
  shows "component_detections i c =
     Inr (map (\<lambda>j. Copied (with_single_context (clone c) (occurrences_of c ! j)) i j)
            [0..<length (occurrences_of c)])"
  using assms by (simp add: component_detections_def is_asset_def map_enumerate)

lemma comp_asset_none:
  assumes "is_asset c" "has_occurrences c = Inr False"
  shows "component_detections i c = Inr [Shared i]"
  using assms by (simp add: component_detections_def is_asset_def)

lemma origin_dets: "d \<in> set (dets_of i c) \<Longrightarrow> origin d = Some i"
  by (auto simp add: dets_of_def component_detections_def split: sum.splits bool.splits if_splits)

lemma flatten_concat:
  "flatten_components n cs = Inr ds \<Longrightarrow> ds = concat (map (\<lambda>(k, c). dets_of k c) (enumerate n cs))"
  by (induction cs arbitrary: n ds) (auto simp add: dets_of_def split: sum.splits)

lemma flatten_no_throw:
  "flatten_components n cs = Inr ds \<Longrightarrow> k < length cs \<Longrightarrow>
   component_detections (n + k) (cs ! k) = Inr (dets_of (n + k) (cs ! k))"
proof (induction cs arbitrary: n ds k)
  case (Cons c cs)
  then obtain d1 d2 where c: "component_detections n c = Inr d1" and r: "flatten_components (Suc n) cs = Inr d2"
    by (auto split: sum.splits)
  show ?case
  proof (cases k)
    case 0
    then show ?thesis using c by (simp add: dets_of_def)
  next
    case (Suc k')
    then show ?thesis using Cons.IH[OF r, of k'] Cons.prems(2) by simp
  qed
qed simp

lemma filter_origin_concat:
  "filter (\<lambda>d. origin d = Some i) (concat (map (\<lambda>(k, c). dets_of k c) (enumerate n cs)))
     = (if n \<le> i \<and> i < n + length cs then dets_of i (cs ! (i - n)) else [])"
proof (induction cs arbitrary: n)
  case (Cons c cs)
  have here: "filter (\<lambda>d. origin d = Some i) (dets_of n c) = (if i = n then dets_of n c else [])"
    using origin_dets[of _ n c] by (auto intro!: filter_True filter_False)
  show ?case
  proof (cases "i = n")
    case True
    then show ?thesis using here Cons.IH[of "Suc n"] by simp
  next
    case False
    then show ?thesis using here Cons.IH[of "Suc n"] by (auto simp add: nth_Cons')
  qed
qed auto

lemma detections_try_flatten:
  assumes "detections_try cbom = Inr ds" "hasOwn cbom ''components'' = Inr True"
    "isArray (fld cbom ''components'')"
  shows "flatten_components 0 (components_of cbom) = Inr ds"
  using assms by (auto simp add: detections_try_def split: if_splits)

lemma detections_of_component:
  assumes "detections_try cbom = Inr ds" "hasOwn cbom ''components'' = Inr True"
    "isArray (fld cbom ''components'')" "i < length (components_of cbom)"
  shows "filter (\<lambda>d. origin d = Some i) ds = dets_of i (components_of cbom ! i)"
    and "component_detections i (components_of cbom ! i) = Inr (dets_of i (components_of cbom ! i))"
proof -
  have f: "flatten_components 0 (components_of cbom) = Inr ds"
    using assms(1,2,3) by (rule detections_try_flatten)
  show "filter (\<lambda>d. origin d = Some i) ds = dets_of i (components_of cbom ! i)"
    unfolding flatten_concat[OF f] filter_origin_concat using assms(4) by simp
  show "component_detections i (components_of cbom ! i) = Inr (dets_of i (components_of cbom ! i))"
    using flatten_no_throw[OF f assms(4)] by simp
qed

lemma asset_has_occurrences:
  assumes "is_asset c" "component_detections i c = Inr ds"
  shows "has_occurrences c = Inr True \<or> has_occurrences c = Inr False"
  using assms by (auto simp add: component_detections_def is_asset_def split: sum.splits)

lemma with_single_context_fields:
  assumes "is_asset c" "has_occurrences c = Inr True"
  shows "k \<noteq> ''evidence'' \<Longrightarrow> fld (with_single_context c occ) k = fld c k"
    and "fld (fld (with_single_context c occ) ''evidence'') ''occurrences'' = JArr [occ]"
    and "k \<noteq> ''occurrences'' \<Longrightarrow>
         fld (fld (with_single_context c occ) ''evidence'') k = fld (fld c ''evidence'') k"
proof -
  obtain kvs where c: "c = JObj kvs" using is_asset_obj[OF assms(1)] by blast
  obtain ekvs where e: "fld (JObj kvs) ''evidence'' = JObj ekvs"
    using has_occurrences_obj[OF assms(2)] c by blast
  show "k \<noteq> ''evidence'' \<Longrightarrow> fld (with_single_context c occ) k = fld c k"
    unfolding with_single_context_def c by (simp only: fld_assign if_False)
  show "fld (fld (with_single_context c occ) ''evidence'') ''occurrences'' = JArr [occ]"
    unfolding with_single_context_def c by (simp add: fld_assign e del: fld.simps assign.simps)
  show "k \<noteq> ''occurrences'' \<Longrightarrow>
         fld (fld (with_single_context c occ) ''evidence'') k = fld (fld c ''evidence'') k"
    unfolding with_single_context_def c by (simp add: fld_assign e del: fld.simps assign.simps)
qed

lemma example_r1_facts:
  "is_asset example_r1" "has_occurrences example_r1 = Inr True"
  "occurrences_of example_r1 = [example_occ1, example_occ2]" "json_exact example_r1"
  by (simp_all add: example_r1_def is_asset_def has_occurrences_def occurrences_of_def
      example_occ1_def example_occ2_def)

lemma example_r2_facts:
  "is_asset example_r2" "has_occurrences example_r2 = Inr False" "json_exact example_r2"
  by (simp_all add: example_r2_def is_asset_def has_occurrences_def)

lemma example_cbom_facts:
  "hasOwn example_cbom ''components'' = Inr True" "isArray (fld example_cbom ''components'')"
  "components_of example_cbom = [example_r1, example_r2]"
  by (simp_all add: example_cbom_def components_of_def)

lemma example_detections:
  "detections_try example_cbom =
     Inr [Copied (with_single_context example_r1 example_occ1) 0 0,
          Copied (with_single_context example_r1 example_occ2) 0 1,
          Shared 1]"
proof -
  have "example_cbom \<noteq> JUndef" "example_cbom \<noteq> JNull" by (simp_all add: example_cbom_def)
  then show ?thesis
    unfolding detections_try_def
    by (simp add: example_cbom_facts comp_asset_occ[OF example_r1_facts(1,2)]
        comp_asset_none[OF example_r2_facts(1,2)] example_r1_facts(3) clone_id[OF example_r1_facts(4)]
        upt_rec[of 0] upt_rec[of 1] )
qed

lemma has_components_obj:
  assumes "has_components cbom"
  shows "\<exists>kvs. cbom = JObj kvs \<and> map_of kvs ''components'' = Some (JArr (components_of cbom))"
proof -
  obtain kvs where k: "cbom = JObj kvs"
    using assms hasOwn_True_obj[of cbom "''components''" "CHR ''c''"]
    by (auto simp add: has_components_def)
  have "isArray (fld (JObj kvs) ''components'')" using assms k by (simp add: has_components_def)
  then have "map_of kvs ''components'' = Some (JArr (components_of cbom))"
    unfolding components_of_def k
    by (cases "map_of kvs ''components''"; cases "fld (JObj kvs) ''components''") auto
  then show ?thesis using k by blast
qed

lemma components_assign:
  assumes "has_components cbom"
  shows "has_components (assign cbom ''components'' (JArr xs))"
    and "components_of (assign cbom ''components'' (JArr xs)) = xs"
proof -
  obtain kvs where k: "cbom = JObj kvs" using has_components_obj[OF assms] by blast
  show "has_components (assign cbom ''components'' (JArr xs))"
    unfolding k has_components_def
    by (simp add: update_conv' dom_update del: fld.simps) (simp add: update_conv')
  show "components_of (assign cbom ''components'' (JArr xs)) = xs"
    unfolding k components_of_def by (simp add: update_conv')
qed

lemma stripped_name_Some:
  assumes "stripped_name c = Inr (Some n)"
  shows "\<exists>kvs s. c = JObj kvs \<and> fld c ''name'' = JStr s \<and> CHR ''@'' \<in> set s
           \<and> n = JStr (takeWhile (\<lambda>ch. ch \<noteq> CHR ''@'') s) \<and> ''name'' \<in> fst ` set kvs"
proof -
  have h: "hasOwn c ''name'' = Inr True"
    using assms by (auto simp add: stripped_name_def split: sum.splits bool.splits)
  then obtain kvs where k: "c = JObj kvs" "''name'' \<in> fst ` set kvs"
    using hasOwn_True_obj[of c "''name''" "CHR ''n''"] by auto
  have "\<exists>s. fld c ''name'' = JStr s \<and> CHR ''@'' \<in> set s
           \<and> n = JStr (takeWhile (\<lambda>ch. ch \<noteq> CHR ''@'') s)"
    using assms h by (auto simp add: stripped_name_def split: json.splits if_splits)
  then show ?thesis using k by blast
qed

lemma stripped_name_of_string:
  assumes "hasOwn c ''name'' = Inr True" "fld c ''name'' = JStr s"
  shows "stripped_name c = Inr (if CHR ''@'' \<in> set s
            then Some (JStr (takeWhile (\<lambda>ch. ch \<noteq> CHR ''@'') s)) else None)"
  using assms by (simp add: stripped_name_def)

lemma renamed_idem: "renamed (renamed c) = renamed c"
proof (cases "stripped_name c")
  case (Inr opt)
  show ?thesis
  proof (cases opt)
    case (Some n)
    then obtain kvs s where c: "c = JObj kvs" "''name'' \<in> fst ` set kvs"
      and n: "n = JStr (takeWhile (\<lambda>ch. ch \<noteq> CHR ''@'') s)"
      using stripped_name_Some Inr by blast
    have r: "renamed c = JObj (AList.update ''name'' n kvs)"
      using Inr Some c by (simp add: renamed_def)
    have "CHR ''@'' \<notin> set (takeWhile (\<lambda>ch. ch \<noteq> CHR ''@'') s)"
      by (auto dest: set_takeWhileD)
    then have "stripped_name (JObj (AList.update ''name'' n kvs)) = Inr None"
      unfolding n by (simp add: stripped_name_def update_conv' dom_update)
    then show ?thesis unfolding r by (simp add: renamed_def)
  qed (simp add: renamed_def Inr)
qed (simp add: renamed_def)

lemma renamed_name:
  assumes "hasOwn c ''name'' = Inr True" "fld c ''name'' = JStr s" "CHR ''@'' \<in> set s"
  shows "fld (renamed c) ''name'' = JStr (takeWhile (\<lambda>ch. ch \<noteq> CHR ''@'') s)"
proof -
  obtain kvs where k: "c = JObj kvs"
    using assms(1) hasOwn_True_obj[of c "''name''" "CHR ''n''"] by auto
  have "renamed c = assign c ''name'' (JStr (takeWhile (\<lambda>ch. ch \<noteq> CHR ''@'') s))"
    unfolding renamed_def stripped_name_of_string[OF assms(1,2)] using assms(3) by simp
  then show ?thesis
    unfolding k by (simp add: update_conv')
qed

lemma remove_Cons_Inr:
  assumes "removeBomRefFromDetectionNames (d # ds) m = (Inr ds', m')"
  shows "\<exists>opt d' m1 ds''. stripped_name (detection_value m d) = Inr opt
           \<and> strip_step d opt m = (d', m1)
           \<and> removeBomRefFromDetectionNames ds m1 = (Inr ds'', m') \<and> ds' = d' # ds''"
  using assms
  by (auto simp add: strip_step_def split: sum.splits option.splits prod.splits)

lemma stripped_name_undef: "stripped_name JUndef = Inl TypeError"
  by (simp add: stripped_name_def)

lemma strip_step_cbom:
  assumes "has_components (m_cbom m)" "stripped_name (detection_value m d) = Inr opt"
    "strip_step d opt m = (d', m1)"
  shows "has_components (m_cbom m1)"
    and "length (components_of (m_cbom m1)) = length (components_of (m_cbom m))"
    and "i < length (components_of (m_cbom m)) \<Longrightarrow>
         components_of (m_cbom m1) ! i =
           (if d = Shared i then renamed (components_of (m_cbom m) ! i) else components_of (m_cbom m) ! i)"
    and "d = Shared i \<Longrightarrow> d' = Shared i"
    and "m_isScanning m1 = m_isScanning m"
proof -
  let ?cs = "components_of (m_cbom m)"
  have shared: "j < length ?cs \<and> stripped_name (?cs ! j) = Inr opt" if "d = Shared j" for j
  proof -
    have "nth_or_undef ?cs j \<noteq> JUndef"
      using assms(2) that stripped_name_undef by auto
    then have "j < length ?cs" by (auto simp add: nth_or_undef_def split: if_splits)
    then show ?thesis using assms(2) that by (simp add: nth_or_undef_def)
  qed
  have all: "has_components (m_cbom m1)
      \<and> length (components_of (m_cbom m1)) = length ?cs
      \<and> (i < length ?cs \<longrightarrow> components_of (m_cbom m1) ! i =
           (if d = Shared i then renamed (?cs ! i) else ?cs ! i))
      \<and> (d = Shared i \<longrightarrow> d' = Shared i) \<and> m_isScanning m1 = m_isScanning m"
  proof (cases opt)
    case None
    then have e: "d' = d" "m1 = m" using assms(3) by (simp_all add: strip_step_def)
    have "renamed (?cs ! i) = ?cs ! i" if "d = Shared i"
      using shared[OF that] None by (simp add: renamed_def)
    then show ?thesis using assms(1) e by auto
  next
    case (Some n)
    show ?thesis
    proof (cases d)
      case (Shared j)
      have j: "j < length ?cs" and sj: "stripped_name (?cs ! j) = Inr (Some n)"
        using shared[OF Shared] Some by simp_all
      have rn: "renamed (?cs ! j) = assign (?cs ! j) ''name'' n"
        using sj by (simp add: renamed_def)
      have m1: "m_cbom m1 = assign (m_cbom m) ''components'' (JArr (?cs[j := renamed (?cs ! j)]))"
        and d': "d' = Shared j" and sc: "m_isScanning m1 = m_isScanning m"
        using assms(3) Some Shared j by (auto simp add: strip_step_def nth_or_undef_def rn)
      have cs1: "components_of (m_cbom m1) = ?cs[j := renamed (?cs ! j)]"
        unfolding m1 using assms(1) by (rule components_assign(2))
      have hc: "has_components (m_cbom m1)"
        unfolding m1 using assms(1) by (rule components_assign(1))
      show ?thesis
        using hc d' sc Shared by (auto simp add: cs1 nth_list_update)
    next
      case (Copied v a b)
      then have "m1 = m" using assms(3) Some by (simp add: strip_step_def)
      then show ?thesis using assms(1) Copied by simp
    next
      case (Live a)
      then have "m_cbom m1 = m_cbom m" "m_isScanning m1 = m_isScanning m"
        using assms(3) Some by (auto simp add: strip_step_def)
      then show ?thesis using assms(1) Live by simp
    qed
  qed
  show "has_components (m_cbom m1)"
    "length (components_of (m_cbom m1)) = length (components_of (m_cbom m))"
    "i < length (components_of (m_cbom m)) \<Longrightarrow>
         components_of (m_cbom m1) ! i =
           (if d = Shared i then renamed (components_of (m_cbom m) ! i) else components_of (m_cbom m) ! i)"
    "d = Shared i \<Longrightarrow> d' = Shared i" "m_isScanning m1 = m_isScanning m"
    using all by simp_all
qed

lemma strip_effect:
  assumes "removeBomRefFromDetectionNames ds m = (Inr ds', m')" "has_components (m_cbom m)"
  shows "has_components (m_cbom m')
       \<and> length (components_of (m_cbom m')) = length (components_of (m_cbom m))
       \<and> (\<forall>i < length (components_of (m_cbom m)).
             components_of (m_cbom m') ! i =
               (if Shared i \<in> set ds then renamed (components_of (m_cbom m) ! i)
                else components_of (m_cbom m) ! i))
       \<and> (\<forall>i. Shared i \<in> set ds \<longrightarrow> Shared i \<in> set ds')"
  using assms
proof (induction ds arbitrary: m ds' m')
  case Nil
  then show ?case by simp
next
  case (Cons d ds)
  obtain opt d' m1 ds'' where s: "stripped_name (detection_value m d) = Inr opt"
    and st: "strip_step d opt m = (d', m1)"
    and r: "removeBomRefFromDetectionNames ds m1 = (Inr ds'', m')" and ds': "ds' = d' # ds''"
    using remove_Cons_Inr[OF Cons.prems(1)] by blast
  note step = strip_step_cbom[OF Cons.prems(2) s st]
  note ih = Cons.IH[OF r step(1)]
  have len: "length (components_of (m_cbom m')) = length (components_of (m_cbom m))"
    using ih step(2) by simp
  have comp: "components_of (m_cbom m') ! i =
               (if Shared i \<in> set (d # ds) then renamed (components_of (m_cbom m) ! i)
                else components_of (m_cbom m) ! i)"
    if i: "i < length (components_of (m_cbom m))" for i
  proof -
    have i1: "i < length (components_of (m_cbom m1))" using i step(2) by simp
    have a: "components_of (m_cbom m') ! i =
        (if Shared i \<in> set ds then renamed (components_of (m_cbom m1) ! i)
         else components_of (m_cbom m1) ! i)"
      using ih i1 by blast
    show ?thesis
      unfolding a step(3)[OF i] by (auto simp add: renamed_idem)
  qed
  have keep: "Shared i \<in> set (d # ds) \<longrightarrow> Shared i \<in> set ds'" for i
    using ih step(4)[of i] ds' by auto
  show ?case using ih len comp keep by blast
qed

lemma fld_string_hasOwn:
  assumes "fld (JObj kvs) k = JStr s"
  shows "hasOwn (JObj kvs) k = Inr True"
proof (cases "map_of kvs k")
  case None
  then show ?thesis using assms by simp
next
  case (Some v)
  then have "(k, v) \<in> set kvs" by (rule map_of_SomeD)
  then have "k \<in> fst ` set kvs" by force
  then show ?thesis by simp
qed

lemma getDetections_not_scanning:
  assumes "\<not> m_isScanning m" "detections_try (m_cbom m) = Inr ds"
  shows "getDetections m = removeBomRefFromDetectionNames ds m"
  using assms by (simp add: getDetections_def getDetectionsFromCbom_def)

lemma example_names:
  "stripped_name (with_single_context example_r1 occ) = Inr (Some (JStr ''key''))"
  "stripped_name example_r2 = Inr (Some (JStr ''AES''))"
  by (simp_all add: stripped_name_def with_single_context_def example_r1_def example_r2_def)

lemma example_has_components: "has_components example_cbom"
  by (simp add: has_components_def example_cbom_facts)

lemma example_getDetections:
  "getDetections (loaded example_cbom) =
     (Inr [Copied (assign (with_single_context example_r1 example_occ1) ''name'' (JStr ''key'')) 0 0,
           Copied (assign (with_single_context example_r1 example_occ2) ''name'' (JStr ''key'')) 0 1,
           Shared 1],
      example_stripped)"
proof -
  have l: "\<not> m_isScanning (loaded example_cbom)" "m_cbom (loaded example_cbom) = example_cbom"
    by (simp_all add: loaded_def)
  have d: "detections_try (m_cbom (loaded example_cbom)) =
     Inr [Copied (with_single_context example_r1 example_occ1) 0 0,
          Copied (with_single_context example_r1 example_occ2) 0 1,
          Shared 1]"
    unfolding l by (rule example_detections)
  show ?thesis
    unfolding getDetections_not_scanning[OF l(1) d]
    by (simp add: example_names l example_cbom_facts nth_or_undef_def example_stripped_def)
qed

lemma map_of_clone_fields:
  "map_of kvs k = Some v \<Longrightarrow> v \<noteq> JUndef \<Longrightarrow>
   map_of (map (\<lambda>kv. (fst kv, g (snd kv))) (filter (\<lambda>kv. snd kv \<noteq> JUndef) kvs)) k = Some (g v)"
  by (induction kvs) (auto split: if_splits)

lemma clone_asset:
  assumes "is_asset c"
  shows "is_asset (clone c)"
proof -
  obtain kvs where c: "c = JObj kvs" using is_asset_obj[OF assms] by blast
  have "fld (JObj kvs) ''type'' = JStr ''cryptographic-asset''" using assms c by (simp add: is_asset_def)
  then have m: "map_of kvs ''type'' = Some (JStr ''cryptographic-asset'')"
    by (cases "map_of kvs ''type''") simp_all
  have m': "map_of (map (\<lambda>kv. (fst kv, clone (snd kv))) (filter (\<lambda>kv. snd kv \<noteq> JUndef) kvs)) ''type''
      = Some (clone (JStr ''cryptographic-asset''))"
    using m by (rule map_of_clone_fields) simp
  obtain kvs' where c': "clone c = JObj kvs'"
    and kvs': "kvs' = map (\<lambda>kv. (fst kv, clone (snd kv))) (filter (\<lambda>kv. snd kv \<noteq> JUndef) kvs)"
    unfolding c by simp
  have f: "fld (JObj kvs') ''type'' = JStr ''cryptographic-asset''"
    using m' unfolding kvs' by simp
  then have "hasOwn (JObj kvs') ''type'' = Inr True" by (rule fld_string_hasOwn)
  then show ?thesis
    unfolding c' is_asset_def using f by simp
qed

lemma map_of_hasOwn: "map_of kvs k = Some v \<Longrightarrow> hasOwn (JObj kvs) k = Inr True"
  by (simp add: rev_image_eqI map_of_SomeD[of kvs k v] del: map_of_eq_None_iff)
     (metis fst_conv image_eqI map_of_SomeD)

lemma has_occurrences_JObj:
  assumes "map_of kvs ''evidence'' = Some (JObj ekvs)"
  shows "has_occurrences (JObj kvs) = Inr True \<longleftrightarrow> (\<exists>os. map_of ekvs ''occurrences'' = Some (JArr os))"
proof -
  have h: "hasOwn (JObj kvs) ''evidence'' = Inr True" using assms by (rule map_of_hasOwn)
  have f: "fld (JObj kvs) ''evidence'' = JObj ekvs" using assms by simp
  show ?thesis
  proof (cases "map_of ekvs ''occurrences''")
    case None
    then have "hasOwn (JObj ekvs) ''occurrences'' = Inr False"
      by (simp add: map_of_eq_None_iff)
    then show ?thesis unfolding has_occurrences_def h f using None by simp
  next
    case (Some v)
    then have "hasOwn (JObj ekvs) ''occurrences'' = Inr True" by (rule map_of_hasOwn)
    moreover have "fld (JObj ekvs) ''occurrences'' = v" using Some by simp
    ultimately have "has_occurrences (JObj kvs) = Inr (isArray v)"
      unfolding has_occurrences_def h f by simp
    then show ?thesis using Some by (cases v) simp_all
  qed
qed

lemma clone_has_occurrences:
  assumes "is_asset c" "has_occurrences c = Inr True"
  shows "has_occurrences (clone c) = Inr True"
proof -
  obtain kvs where c: "c = JObj kvs" using is_asset_obj[OF assms(1)] by blast
  obtain ekvs where e: "fld (JObj kvs) ''evidence'' = JObj ekvs"
    using has_occurrences_obj[OF assms(2)] c by blast
  then have m: "map_of kvs ''evidence'' = Some (JObj ekvs)"
    by (cases "map_of kvs ''evidence''") simp_all
  obtain os where o: "map_of ekvs ''occurrences'' = Some (JArr os)"
    using assms(2) has_occurrences_JObj[OF m] unfolding c by blast
  let ?g = "\<lambda>l. map (\<lambda>kv. (fst kv, clone (snd kv))) (filter (\<lambda>kv. snd kv \<noteq> JUndef) l)"
  have m': "map_of (?g kvs) ''evidence'' = Some (clone (JObj ekvs))"
    using m by (rule map_of_clone_fields) simp
  have o': "map_of (?g ekvs) ''occurrences'' = Some (clone (JArr os))"
    using o by (rule map_of_clone_fields) simp
  have m'': "map_of (?g kvs) ''evidence'' = Some (JObj (?g ekvs))"
    using m' by simp
  have o'': "map_of (?g ekvs) ''occurrences'' = Some (JArr (map (\<lambda>x. if x = JUndef then JNull else clone x) os))"
    using o' by simp
  have "has_occurrences (JObj (?g kvs)) = Inr True"
    unfolding has_occurrences_JObj[OF m''] using o'' by blast
  then show ?thesis unfolding c by simp
qed

lemma with_single_context_clone_fields:
  assumes "is_asset c" "has_occurrences c = Inr True"
  shows "k \<noteq> ''evidence'' \<Longrightarrow> fld (with_single_context (clone c) occ) k = fld (clone c) k"
    and "fld (fld (with_single_context (clone c) occ) ''evidence'') ''occurrences'' = JArr [occ]"
    and "k \<noteq> ''occurrences'' \<Longrightarrow>
         fld (fld (with_single_context (clone c) occ) ''evidence'') k = fld (fld (clone c) ''evidence'') k"
  using with_single_context_fields[OF clone_asset[OF assms(1)] clone_has_occurrences[OF assms]]
  by blast+

lemma assign_detection_Copied:
  "assign_detection (Copied v i j) k x m = (Copied (assign v k x) i j, m)"
  by (simp add: assign_detection_def)

lemma set_detection_name_assign: "set_detection_name d n m = assign_detection d ''name'' n m"
  by (cases d) (simp_all add: assign_detection_def)

lemma strip_live:
  "\<forall>d \<in> set ds. \<exists>i. d = Live i \<Longrightarrow>
   m_cbom (snd (removeBomRefFromDetectionNames ds m)) = m_cbom m"
proof (induction ds arbitrary: m)
  case Nil
  then show ?case by simp
next
  case (Cons d ds)
  then obtain i where d: "d = Live i" by auto
  have r: "\<forall>d \<in> set ds. \<exists>i. d = Live i" using Cons.prems by simp
  show ?case
  proof (cases "stripped_name (detection_value m d)")
    case (Inl e)
    then show ?thesis by simp
  next
    case (Inr opt)
    show ?thesis
    proof (cases opt)
      case None
      then show ?thesis using Inr Cons.IH[OF r, of m]
        by (auto split: prod.splits sum.splits)
    next
      case (Some n)
      let ?m1 = "m\<lparr>m_liveDetections := (m_liveDetections m)
           [i := assign (nth_or_undef (m_liveDetections m) i) ''name'' n]\<rparr>"
      have "m_cbom (snd (removeBomRefFromDetectionNames ds ?m1)) = m_cbom ?m1"
        by (rule Cons.IH[OF r])
      then show ?thesis using Inr Some d
        by (auto split: prod.splits sum.splits)
    qed
  qed
qed

lemma getDetectionsFromCbom_cbom: "m_cbom (snd (getDetectionsFromCbom cbom m)) = m_cbom m"
  by (simp add: getDetectionsFromCbom_def addError_def console_log_def split: sum.splits)

lemma getDetectionsFromCbom_scanning:
  "m_isScanning (snd (getDetectionsFromCbom cbom m)) = m_isScanning m"
  by (simp add: getDetectionsFromCbom_def addError_def console_log_def split: sum.splits)

lemma getDetections_scanning_cbom:
  assumes "m_isScanning m"
  shows "m_cbom (snd (getDetections m)) = m_cbom m"
proof -
  obtain ds m1 where g: "getDetectionsFromCbom (m_cbom m) m = (ds, m1)" by (cases "getDetectionsFromCbom (m_cbom m) m")
  have s: "m_isScanning m1" "m_cbom m1 = m_cbom m"
    using getDetectionsFromCbom_scanning[of "m_cbom m" m] getDetectionsFromCbom_cbom[of "m_cbom m" m] assms g
    by simp_all
  have "m_cbom (snd (removeBomRefFromDetectionNames (map Live [0..<length (m_liveDetections m1)]) m1)) = m_cbom m1"
    by (rule strip_live) auto
  then show ?thesis unfolding getDetections_def g using s by simp
qed

lemma getDetections_raised_cbom:
  assumes "detections_try (m_cbom m) = Inl e"
  shows "m_cbom (snd (getDetections m)) = m_cbom m"
proof (cases "m_isScanning m")
  case True
  then show ?thesis by (rule getDetections_scanning_cbom)
next
  case False
  then show ?thesis
    unfolding getDetections_def getDetectionsFromCbom_def
    by (simp add: assms addError_def console_log_def)
qed

lemma example_heavy_facts:
  "is_asset example_heavy" "has_occurrences example_heavy = Inr True"
  "occurrences_of example_heavy = [example_occ1]"
  "fld example_heavy ''keySize'' = JInfinity True"
  "components_of example_heavy_cbom = [example_heavy]"
  "hasOwn example_heavy_cbom ''components'' = Inr True" "isArray (fld example_heavy_cbom ''components'')"
  by (simp_all add: example_heavy_def example_heavy_cbom_def is_asset_def has_occurrences_def
      occurrences_of_def components_of_def)

lemma example_heavy_detections:
  "detections_try example_heavy_cbom
     = Inr [Copied (with_single_context (clone example_heavy) example_occ1) 0 0]"
proof -
  have "example_heavy_cbom \<noteq> JUndef" "example_heavy_cbom \<noteq> JNull" by (simp_all add: example_heavy_cbom_def)
  then show ?thesis
    unfolding detections_try_def
    by (simp add: example_heavy_facts comp_asset_occ[OF example_heavy_facts(1,2)] upt_rec[of 0]
        del: clone.simps)
qed

lemma example_heavy_copy:
  "fld (with_single_context (clone example_heavy) example_occ1) ''keySize'' = JNull"
  by (simp add: example_heavy_def with_single_context_def)

lemma example_unseen_facts:
  "is_asset example_unseen" "has_occurrences example_unseen = Inr True"
  "occurrences_of example_unseen = []"
  "fld example_unseen ''name'' = JStr ''RSA@r4''"
  "components_of example_unseen_cbom = [example_unseen]"
  "hasOwn example_unseen_cbom ''components'' = Inr True" "isArray (fld example_unseen_cbom ''components'')"
  by (simp_all add: example_unseen_def example_unseen_cbom_def is_asset_def has_occurrences_def
      occurrences_of_def components_of_def)

lemma example_unseen_detections: "detections_try example_unseen_cbom = Inr []"
proof -
  have "example_unseen_cbom \<noteq> JUndef" "example_unseen_cbom \<noteq> JNull" by (simp_all add: example_unseen_cbom_def)
  then show ?thesis
    unfolding detections_try_def
    by (simp add: example_unseen_facts comp_asset_occ[OF example_unseen_facts(1,2)]
        del: clone.simps)
qed

lemma example_unseen_getDetections:
  "getDetections (loaded example_unseen_cbom) = (Inr [], loaded example_unseen_cbom)"
  by (simp add: getDetections_def getDetectionsFromCbom_def loaded_def example_unseen_detections)

lemma example_shared_occurrence:
  "fld (nth_or_undef (occurrences_of (nth_or_undef (components_of (m_cbom (loaded example_cbom))) 0)) 0) ''line''
     = JNum 10"
  "fld (nth_or_undef (occurrences_of (nth_or_undef (components_of (m_cbom
      (snd (assign_occurrence (Copied (with_single_context example_r1 example_occ1) 0 0)
              ''line'' (JNum 99) (loaded example_cbom))))) 0)) 0) ''line''
     = JNum 99"
  by (simp_all add: assign_occurrence_def set_occurrence_def loaded_def example_cbom_def
      components_of_def occurrences_of_def nth_or_undef_def example_r1_def example_occ1_def)

lemma example_scanning_getDetections:
  "getDetections example_scanning = (Inr [], example_scanning)"
  by (simp add: getDetections_def getDetectionsFromCbom_def example_scanning_def loaded_def
      example_detections)

section \<open>Properties of the dependency index\<close>

lemma edges_of_push:
  "edges_of (map_push m k x) k' = (if k' = k then edges_of m k @ [x] else edges_of m k')"
  by (simp add: map_push_def map_has_def map_set_def edges_of_def update_conv' Let_def)

lemma add_depends_cnt:
  "cnt_dep (add_depends b r p idx) A B P = cnt_dep idx A B P + (if A = b \<and> B = r \<and> P = p then 1 else 0)"
  "cnt_idep (add_depends b r p idx) B A P = cnt_idep idx B A P + (if A = b \<and> B = r \<and> P = p then 1 else 0)"
  "cnt_prov (add_depends b r p idx) A B P = cnt_prov idx A B P"
  "cnt_iprov (add_depends b r p idx) B A P = cnt_iprov idx B A P"
  "detectionsMap (add_depends b r p idx) = detectionsMap idx"
  by (auto simp add: add_depends_def cnt_dep_def cnt_idep_def cnt_prov_def cnt_iprov_def edges_of_push)

lemma add_provides_cnt:
  "cnt_prov (add_provides b r p idx) A B P = cnt_prov idx A B P + (if A = b \<and> B = r \<and> P = p then 1 else 0)"
  "cnt_iprov (add_provides b r p idx) B A P = cnt_iprov idx B A P + (if A = b \<and> B = r \<and> P = p then 1 else 0)"
  "cnt_dep (add_provides b r p idx) A B P = cnt_dep idx A B P"
  "cnt_idep (add_provides b r p idx) B A P = cnt_idep idx B A P"
  "detectionsMap (add_provides b r p idx) = detectionsMap idx"
  by (auto simp add: add_provides_def cnt_dep_def cnt_idep_def cnt_prov_def cnt_iprov_def edges_of_push)

lemma symmetric_add_depends: "symmetric_index idx \<Longrightarrow> symmetric_index (add_depends b r p idx)"
  by (simp add: symmetric_index_def add_depends_cnt)

lemma symmetric_add_provides: "symmetric_index idx \<Longrightarrow> symmetric_index (add_provides b r p idx)"
  by (simp add: symmetric_index_def add_provides_cnt)

lemma symmetric_fold_depends:
  "symmetric_index idx \<Longrightarrow> symmetric_index (fold (\<lambda>r. add_depends b r p) rs idx)"
  by (induction rs arbitrary: idx) (simp_all add: symmetric_add_depends)

lemma symmetric_fold_provides:
  "symmetric_index idx \<Longrightarrow> symmetric_index (fold (\<lambda>r. add_provides b r p) rs idx)"
  by (induction rs arbitrary: idx) (simp_all add: symmetric_add_provides)

lemma fold_depends_cnt:
  "cnt_dep (fold (\<lambda>r. add_depends b r p) rs idx) A B P =
     cnt_dep idx A B P + (if A = b \<and> P = p then count_list rs B else 0)"
  by (induction rs arbitrary: idx) (auto simp add: add_depends_cnt)

lemma fold_depends_detections:
  "detectionsMap (fold (\<lambda>r. add_depends b r p) rs idx) = detectionsMap idx"
  by (induction rs arbitrary: idx) (auto simp add: add_depends_cnt)

lemma fold_provides_keep:
  "cnt_dep (fold (\<lambda>r. add_provides b r p) rs idx) A B P = cnt_dep idx A B P"
  "detectionsMap (fold (\<lambda>r. add_provides b r p) rs idx) = detectionsMap idx"
  by (induction rs arbitrary: idx) (auto simp add: add_provides_cnt)

lemma symmetric_empty: "symmetric_index empty_index"
  by (simp add: symmetric_index_def empty_index_def cnt_dep_def cnt_idep_def cnt_prov_def
      cnt_iprov_def edges_of_def)

lemma explicit_only_empty: "explicit_only empty_index"
  by (simp add: explicit_only_def empty_index_def cnt_dep_def edges_of_def)

lemma explicit_step_inv:
  assumes "explicit_step dep idx = Inr idx'" "symmetric_index idx" "explicit_only idx"
  shows "symmetric_index idx' \<and> explicit_only idx'"
proof (cases "hasOwn dep ''ref'' = Inr True")
  case False
  then have "idx' = idx" using assms(1) by (auto simp add: explicit_step_def split: sum.splits bool.splits)
  then show ?thesis using assms by simp
next
  case True
  let ?b = "fld dep ''ref''"
  define idx1 where "idx1 = (if hasOwn dep ''dependsOn'' = Inr True \<and> isArray (fld dep ''dependsOn'')
                       then fold (\<lambda>r. add_depends ?b r ''dependencies.dependsOn'')
                              (elems (fld dep ''dependsOn'')) idx
                       else idx)"
  have idx': "idx' = (if hasOwn dep ''provides'' = Inr True \<and> isArray (fld dep ''provides'')
                       then fold (\<lambda>r. add_provides ?b r ''dependencies.provides'')
                              (elems (fld dep ''provides'')) idx1
                       else idx1)"
    using assms(1) True by (auto simp add: explicit_step_def idx1_def Let_def)
  have s1: "symmetric_index idx1"
    unfolding idx1_def using assms(2) by (simp add: symmetric_fold_depends)
  have e1: "explicit_only idx1"
    unfolding idx1_def using assms(3)
    by (auto simp add: explicit_only_def fold_depends_cnt fold_depends_detections split: if_splits)
  have "symmetric_index idx'"
    unfolding idx' using s1 by (simp add: symmetric_fold_provides)
  moreover have "explicit_only idx'"
    unfolding idx' using e1 by (simp add: explicit_only_def fold_provides_keep)
  ultimately show ?thesis by simp
qed

lemma explicit_loop_inv:
  "explicit_loop deps idx = Inr idx' \<Longrightarrow> symmetric_index idx \<Longrightarrow> explicit_only idx \<Longrightarrow>
   symmetric_index idx' \<and> explicit_only idx'"
proof (induction deps arbitrary: idx)
  case (Cons dep deps)
  then obtain idx1 where s: "explicit_step dep idx = Inr idx1" and l: "explicit_loop deps idx1 = Inr idx'"
    by (auto split: sum.splits)
  have "symmetric_index idx1 \<and> explicit_only idx1"
    using s Cons.prems(2,3) by (rule explicit_step_inv)
  then show ?case using Cons.IH[OF l] by simp
qed simp

lemma explicit_dependencies_inv:
  assumes "explicit_dependencies cbom = Inr idx"
  shows "symmetric_index idx \<and> explicit_only idx"
proof (cases "hasOwn cbom ''dependencies'' = Inr True \<and> isArray (fld cbom ''dependencies'')")
  case True
  then have "explicit_loop (elems (fld cbom ''dependencies'')) empty_index = Inr idx"
    using assms by (simp add: explicit_dependencies_def)
  then show ?thesis using symmetric_empty explicit_only_empty by (rule explicit_loop_inv)
next
  case False
  then have "idx = empty_index"
    using assms by (auto simp add: explicit_dependencies_def split: sum.splits if_splits)
  then show ?thesis using symmetric_empty explicit_only_empty by simp
qed

lemma path_step_cnt:
  "cnt_dep (path_step d b p idx) A B P =
     cnt_dep idx A B P + (if A = b \<and> P = p then count_list (elems (resolvePath d p)) B else 0)"
  "detectionsMap (path_step d b p idx) = detectionsMap idx"
  by (auto simp add: path_step_def Let_def fold_depends_cnt fold_depends_detections)

lemma symmetric_path_step: "symmetric_index idx \<Longrightarrow> symmetric_index (path_step d b p idx)"
  by (simp add: path_step_def Let_def symmetric_fold_depends)

lemma fold_path_step_cnt:
  "cnt_dep (fold (path_step d b) ps idx) A B P =
     cnt_dep idx A B P + (if A = b then count_list ps P * count_list (elems (resolvePath d P)) B else 0)"
  by (induction ps arbitrary: idx) (auto simp add: path_step_cnt)

lemma fold_path_step_detections:
  "detectionsMap (fold (path_step d b) ps idx) = detectionsMap idx"
  by (induction ps arbitrary: idx) (auto simp add: path_step_cnt)

lemma symmetric_fold_path_step:
  "symmetric_index idx \<Longrightarrow> symmetric_index (fold (path_step d b) ps idx)"
  by (induction ps arbitrary: idx) (simp_all add: symmetric_path_step)

lemma cnt_detectionsMap_update [simp]:
  "cnt_dep (idx\<lparr>detectionsMap := x\<rparr>) = cnt_dep idx"
  "cnt_idep (idx\<lparr>detectionsMap := x\<rparr>) = cnt_idep idx"
  "cnt_prov (idx\<lparr>detectionsMap := x\<rparr>) = cnt_prov idx"
  "cnt_iprov (idx\<lparr>detectionsMap := x\<rparr>) = cnt_iprov idx"
  by (simp_all add: cnt_dep_def cnt_idep_def cnt_prov_def cnt_iprov_def fun_eq_iff)

lemma symmetric_detectionsMap_update [simp]:
  "symmetric_index (idx\<lparr>detectionsMap := x\<rparr>) = symmetric_index idx"
  by (simp add: symmetric_index_def)

lemma implicit_step_effect:
  assumes "implicit_step det d idx = Inr idx'"
  shows "cnt_dep idx' A B P = cnt_dep idx A B P + contrib d A B P"
    and "symmetric_index idx \<Longrightarrow> symmetric_index idx'"
    and "detectionsMap idx' =
          (if hasOwn d ''bom-ref'' = Inr True then map_set (detectionsMap idx) (fld d ''bom-ref'') det
           else detectionsMap idx)"
proof -
  have c: "idx' = (if hasOwn d ''bom-ref'' = Inr True
             then fold (path_step d (fld d ''bom-ref'')) dependencyPaths
                    (idx\<lparr>detectionsMap := map_set (detectionsMap idx) (fld d ''bom-ref'') det\<rparr>)
             else idx)"
    using assms by (auto simp add: implicit_step_def Let_def split: sum.splits bool.splits)
  show "cnt_dep idx' A B P = cnt_dep idx A B P + contrib d A B P"
    unfolding c by (auto simp add: fold_path_step_cnt contrib_def)
  show "symmetric_index idx \<Longrightarrow> symmetric_index idx'"
    unfolding c by (simp add: symmetric_fold_path_step)
  show "detectionsMap idx' =
          (if hasOwn d ''bom-ref'' = Inr True then map_set (detectionsMap idx) (fld d ''bom-ref'') det
           else detectionsMap idx)"
    unfolding c by (simp add: fold_path_step_detections)
qed

lemma implicit_loop_cnt:
  "implicit_loop m ds idx = Inr idx' \<Longrightarrow>
   cnt_dep idx' A B P =
     cnt_dep idx A B P + sum_list (map (\<lambda>det. contrib (detection_value m det) A B P) ds)"
proof (induction ds arbitrary: idx)
  case (Cons det ds)
  then obtain idx1 where s: "implicit_step det (detection_value m det) idx = Inr idx1"
    and l: "implicit_loop m ds idx1 = Inr idx'"
    by (auto split: sum.splits)
  show ?case using Cons.IH[OF l] implicit_step_effect(1)[OF s, of A B P] by simp
qed simp

lemma implicit_loop_symmetric:
  "implicit_loop m ds idx = Inr idx' \<Longrightarrow> symmetric_index idx \<Longrightarrow> symmetric_index idx'"
proof (induction ds arbitrary: idx)
  case (Cons det ds)
  then obtain idx1 where s: "implicit_step det (detection_value m det) idx = Inr idx1"
    and l: "implicit_loop m ds idx1 = Inr idx'"
    by (auto split: sum.splits)
  show ?case using Cons.IH[OF l] implicit_step_effect(2)[OF s] Cons.prems(2) by simp
qed simp

lemma implicit_loop_known:
  "implicit_loop m ds idx = Inr idx' \<Longrightarrow> known_detections m all idx \<Longrightarrow> set ds \<subseteq> set all \<Longrightarrow>
   known_detections m all idx'"
proof (induction ds arbitrary: idx)
  case (Cons det ds)
  then obtain idx1 where s: "implicit_step det (detection_value m det) idx = Inr idx1"
    and l: "implicit_loop m ds idx1 = Inr idx'"
    by (auto split: sum.splits)
  have "known_detections m all idx1"
    using Cons.prems(2,3) unfolding known_detections_def implicit_step_effect(3)[OF s]
    by (auto simp add: map_set_def update_conv' split: if_splits)
  then show ?case using Cons.IH[OF l] Cons.prems(3) by simp
qed simp

lemma setDependenciesMap_Inr:
  assumes "setDependenciesMap cbom m = (Inr (), m')"
  shows "\<exists>idx0 ds m1 idx. explicit_dependencies cbom = Inr idx0 \<and> getDetections m = (Inr ds, m1)
           \<and> implicit_loop m1 ds idx0 = Inr idx \<and> m' = m1\<lparr>m_dependencies := Some idx\<rparr>"
  using assms
  by (auto simp add: setDependenciesMap_def split: sum.splits prod.splits)

lemma mem_count: "x \<in> set xs \<longleftrightarrow> 0 < count_list xs x"
  by (induction xs) auto




lemma dependencyPaths_distinct: "distinct dependencyPaths"
  by (simp add: dependencyPaths_def)

lemma traverse_assign_other:
  "k \<noteq> k0 \<Longrightarrow> traverse (assign (JObj kvs) k0 x) (k # ks) = traverse (JObj kvs) (k # ks)"
  by (simp add: update_conv')

lemma hasOwn_assign_other:
  "k \<noteq> k0 \<Longrightarrow> hasOwn (assign (JObj kvs) k0 x) k = hasOwn (JObj kvs) k"
  by (simp add: dom_update)










lemma origin_stripped_ref [simp]: "origin (stripped_ref d) = origin d"
  by (cases d) (simp_all add: stripped_ref_def)





lemma count_in_distinct: "distinct xs \<Longrightarrow> x \<in> set xs \<Longrightarrow> count_list xs x = 1"
  by (induction xs) auto

lemma dependsOn_not_path: "''dependencies.dependsOn'' \<notin> set dependencyPaths"
  by (simp add: dependencyPaths_def)

lemma index_after_build:
  assumes "setDependenciesMap cbom m = (Inr (), m')"
  shows "\<exists>idx ds m1. m_dependencies m' = Some idx \<and> getDetections m = (Inr ds, m1)
           \<and> m_cbom m' = m_cbom m1 \<and> m_liveDetections m' = m_liveDetections m1
           \<and> symmetric_index idx \<and> known_detections m1 ds idx
           \<and> (\<forall>A B P. P \<in> set dependencyPaths \<longrightarrow>
                 cnt_dep idx A B P = sum_list (map (\<lambda>det. contrib (detection_value m1 det) A B P) ds))"
proof -
  obtain idx0 ds m1 idx where e: "explicit_dependencies cbom = Inr idx0"
    and g: "getDetections m = (Inr ds, m1)" and l: "implicit_loop m1 ds idx0 = Inr idx"
    and m': "m' = m1\<lparr>m_dependencies := Some idx\<rparr>"
    using setDependenciesMap_Inr[OF assms] by blast
  have inv: "symmetric_index idx0" "explicit_only idx0"
    using explicit_dependencies_inv[OF e] by simp_all
  have s: "symmetric_index idx" using l inv(1) by (rule implicit_loop_symmetric)
  have k0: "known_detections m1 ds idx0"
    using inv(2) by (simp add: known_detections_def explicit_only_def)
  have k: "known_detections m1 ds idx" using l k0 by (rule implicit_loop_known) simp
  have c: "cnt_dep idx A B P = sum_list (map (\<lambda>det. contrib (detection_value m1 det) A B P) ds)"
    if "P \<in> set dependencyPaths" for A B P
  proof -
    have "P \<noteq> ''dependencies.dependsOn''" using that dependsOn_not_path by auto
    then have "cnt_dep idx0 A B P = 0" using inv(2) by (auto simp add: explicit_only_def)
    then show ?thesis using implicit_loop_cnt[OF l, of A B P] by simp
  qed
  show ?thesis using g s k c m' by auto
qed

lemma elem_le_sum_list: "x \<in> set xs \<Longrightarrow> (f :: 'a \<Rightarrow> nat) x \<le> sum_list (map f xs)"
  by (induction xs) auto

lemma example_scenario_build:
  "setDependenciesMap example_scenario (loaded example_scenario) =
     (Inr (), (loaded example_scenario)\<lparr>m_dependencies := Some example_scenario_index\<rparr>)"
  by code_simp





lemma remove_Nil: "removeBomRefFromDetectionNames [] m = (Inr ds, m1) \<Longrightarrow> ds = []"
  by simp




section \<open>The claims about the normalizer\<close>




text \<open>
  Claim C2. Normalization is idempotent at both levels: a document whose \<^verbatim>\<open>quantumSecurity\<close>
  block is the output of \<^verbatim>\<open>getQuantumSecurityFromCbom\<close> on any value normalizes to that same
  output, and a component whose \<^verbatim>\<open>cryptoProperties.quantumAssessment\<close> is the output of
  \<^verbatim>\<open>getComponentQuantumAssessment\<close> on any value is assessed to that same output.
\<close>

theorem normalizer_idempotent:
  "(objlike c \<and> fld c ''quantumSecurity'' = getQuantumSecurityFromCbom cbom
      \<longrightarrow> getQuantumSecurityFromCbom c = getQuantumSecurityFromCbom cbom)
   \<and> (objlike a \<and> objlike (fld a ''cryptoProperties'')
        \<and> fld (fld a ''cryptoProperties'') ''quantumAssessment'' = getComponentQuantumAssessment asset
      \<longrightarrow> getComponentQuantumAssessment a = getComponentQuantumAssessment asset)"
  using quantum_ok_fix[OF getQuantumSecurityFromCbom_ok, of c cbom]
    assessment_ok_fix[OF getComponentQuantumAssessment_ok, of a asset]
  by (simp add: objlike_def)

text \<open>Idempotence on a malformed quantum block and on a partial component assessment.\<close>

theorem normalizer_idempotent_witness:
  "getQuantumSecurityFromCbom (JObj [(''quantumSecurity'', getQuantumSecurityFromCbom
       (JObj [(''quantumSecurity'', JObj [(''qtrl'', JNum 5),
           (''vectors'', JArr [JObj [(''id'', JStr ''kml''), (''status'', JNull)], JStr ''junk'',
                               JObj [(''name'', JStr ''X'')]]),
           (''riskModel'', JObj [(''severityLevels'', JStr ''high'')])])]))])
   = getQuantumSecurityFromCbom
       (JObj [(''quantumSecurity'', JObj [(''qtrl'', JNum 5),
           (''vectors'', JArr [JObj [(''id'', JStr ''kml''), (''status'', JNull)], JStr ''junk'',
                               JObj [(''name'', JStr ''X'')]]),
           (''riskModel'', JObj [(''severityLevels'', JStr ''high'')])])])
   \<and> getComponentQuantumAssessment (JObj [(''cryptoProperties'', JObj [(''quantumAssessment'',
        getComponentQuantumAssessment (JObj [(''cryptoProperties'',
           JObj [(''quantumAssessment'', JObj [(''vector'', JStr ''kml''), (''notes'', JNull)])])]))])])
   = getComponentQuantumAssessment (JObj [(''cryptoProperties'',
           JObj [(''quantumAssessment'', JObj [(''vector'', JStr ''kml''), (''notes'', JNull)])])])"
  using normalizer_idempotent[of
      "JObj [(''quantumSecurity'', getQuantumSecurityFromCbom
       (JObj [(''quantumSecurity'', JObj [(''qtrl'', JNum 5),
           (''vectors'', JArr [JObj [(''id'', JStr ''kml''), (''status'', JNull)], JStr ''junk'',
                               JObj [(''name'', JStr ''X'')]]),
           (''riskModel'', JObj [(''severityLevels'', JStr ''high'')])])]))]"
      "JObj [(''quantumSecurity'', JObj [(''qtrl'', JNum 5),
           (''vectors'', JArr [JObj [(''id'', JStr ''kml''), (''status'', JNull)], JStr ''junk'',
                               JObj [(''name'', JStr ''X'')]]),
           (''riskModel'', JObj [(''severityLevels'', JStr ''high'')])])]"
      "JObj [(''cryptoProperties'', JObj [(''quantumAssessment'',
        getComponentQuantumAssessment (JObj [(''cryptoProperties'',
           JObj [(''quantumAssessment'', JObj [(''vector'', JStr ''kml''), (''notes'', JNull)])])]))])]"
      "JObj [(''cryptoProperties'',
           JObj [(''quantumAssessment'', JObj [(''vector'', JStr ''kml''), (''notes'', JNull)])])]"]
  by (simp add: objlike_def)

section \<open>The claims about absent documents and the validator\<close>

text \<open>
  Claim C8. For an input that is \<^verbatim>\<open>null\<close>, \<^verbatim>\<open>undefined\<close> or not an object,
  \<^verbatim>\<open>getDetectionsFromCbom\<close> returns the empty list (through its normal path: the state is
  unchanged, no error is recorded) and \<^verbatim>\<open>getQuantumSecurityFromCbom\<close> returns the default
  block; so does an object without a \<^verbatim>\<open>quantumSecurity\<close> field. Both functions are total,
  they have no exceptional result. The default block lists the six canonical ids, each with
  status, severity, urgency and notes \<^verbatim>\<open>Not analysed\<close>, and the two default scales.
\<close>

theorem unparseable_document:
  "(cbom = JNull \<or> cbom = JUndef \<or> typeof cbom \<noteq> ''object'' \<longrightarrow>
      getDetectionsFromCbom cbom m = ([], m) \<and> getQuantumSecurityFromCbom cbom = defaultQuantumSecurity)
   \<and> (map_of kvs ''quantumSecurity'' = None \<longrightarrow>
      getQuantumSecurityFromCbom (JObj kvs) = defaultQuantumSecurity)
   \<and> map (\<lambda>e. fld e ''id'') (elems (fld defaultQuantumSecurity ''vectors'')) =
        [JStr ''hndl'', JStr ''authentication'', JStr ''kml'', JStr ''thirdParty'',
         JStr ''cryptoAgility'', JStr ''governance'']
   \<and> (\<forall>e \<in> set (elems (fld defaultQuantumSecurity ''vectors'')).
         fld e ''status'' = JStr ''Not analysed'' \<and> fld e ''severity'' = JStr ''Not analysed''
       \<and> fld e ''urgency'' = JStr ''Not analysed'' \<and> fld e ''notes'' = JStr ''Not analysed'')
   \<and> fld (fld defaultQuantumSecurity ''riskModel'') ''severityLevels'' =
        JArr [JStr ''critical'', JStr ''high'', JStr ''medium'', JStr ''low'', JStr ''informational'']
   \<and> fld (fld defaultQuantumSecurity ''riskModel'') ''urgencyLevels'' =
        JArr [JStr ''critical'', JStr ''high'', JStr ''medium'', JStr ''low'', JStr ''informational'']"
proof (intro conjI impI ballI)
  assume a: "cbom = JNull \<or> cbom = JUndef \<or> typeof cbom \<noteq> ''object''"
  show "getDetectionsFromCbom cbom m = ([], m)"
    by (simp add: getDetectionsFromCbom_def detections_try_not_object[OF a])
  show "getQuantumSecurityFromCbom cbom = defaultQuantumSecurity"
    using a by (rule quantum_not_object)
next
  assume "map_of kvs ''quantumSecurity'' = None"
  then show "getQuantumSecurityFromCbom (JObj kvs) = defaultQuantumSecurity"
    by (rule quantum_absent)
next
  show "map (\<lambda>e. fld e ''id'') (elems (fld defaultQuantumSecurity ''vectors'')) =
        [JStr ''hndl'', JStr ''authentication'', JStr ''kml'', JStr ''thirdParty'',
         JStr ''cryptoAgility'', JStr ''governance'']"
    by (simp only: default_block_vectors(1) canon_keys_eq)
next
  fix e assume e: "e \<in> set (elems (fld defaultQuantumSecurity ''vectors''))"
  show "fld e ''status'' = JStr ''Not analysed''" "fld e ''severity'' = JStr ''Not analysed''"
    "fld e ''urgency'' = JStr ''Not analysed''" "fld e ''notes'' = JStr ''Not analysed''"
    using default_block_vectors(2)[OF e] by (simp_all add: NOT_ANALYSED_TEXT_def)
next
  show "fld (fld defaultQuantumSecurity ''riskModel'') ''severityLevels'' =
        JArr [JStr ''critical'', JStr ''high'', JStr ''medium'', JStr ''low'', JStr ''informational'']"
    "fld (fld defaultQuantumSecurity ''riskModel'') ''urgencyLevels'' =
        JArr [JStr ''critical'', JStr ''high'', JStr ''medium'', JStr ''low'', JStr ''informational'']"
    by (simp_all add: default_scales default_levels_def)
qed

text \<open>The theorem at a string, a number and a document without a quantum block.\<close>

theorem unparseable_document_witness:
  "typeof (JStr ''not a document'') \<noteq> ''object''
   \<and> getDetectionsFromCbom (JStr ''not a document'') (loaded JNull) = ([], loaded JNull)
   \<and> getQuantumSecurityFromCbom (JNum 7) = defaultQuantumSecurity
   \<and> map_of [(''bomFormat'', JStr ''CycloneDX'')] ''quantumSecurity'' = None
   \<and> getQuantumSecurityFromCbom (JObj [(''bomFormat'', JStr ''CycloneDX'')]) = defaultQuantumSecurity
   \<and> fld (hd (elems (fld defaultQuantumSecurity ''vectors''))) ''status'' = JStr ''Not analysed''"
  using unparseable_document[of "JStr ''not a document''" "loaded JNull" "[(''bomFormat'', JStr ''CycloneDX'')]"]
    unparseable_document[of "JNum 7" "loaded JNull" "[]"]
  by (simp add: default_vectors hd_map length_default_merged list.set_sel(1) flip: length_0_conv)

text \<open>
  Claim C3. On the document \<^verbatim>\<open>{bomFormat: "CycloneDX"}\<close> the validator has found the three
  missing fields, in the order specVersion, serialNumber, version, and holds
  \<^verbatim>\<open>isValid = false\<close> when it reaches the test for \<^verbatim>\<open>components\<close>; there it returns, before
  the statements that report. Nothing is reported: the state is unchanged. The detection
  list of the document is empty.
\<close>

theorem bomFormat_only_document:
  "check_body (JObj [(''bomFormat'', JStr ''CycloneDX'')]) =
     (ReturnedEarly,
      \<lparr>isValid = False, isIgnoringSomeComponent = False,
       errorMessages = [''Missing mandatory field: specVersion.'',
                        ''Missing mandatory field: serialNumber.'',
                        ''Missing mandatory field: version.''],
       warned = []\<rparr>)
   \<and> checkCbomValidity (JObj [(''bomFormat'', JStr ''CycloneDX'')]) m = (Inr (), m)
   \<and> getDetectionsFromCbom (JObj [(''bomFormat'', JStr ''CycloneDX'')]) m = ([], m)"
  by (simp add: check_body_def checkCbomValidity_def require_field_def invalid_def
      getDetectionsFromCbom_def detections_try_def)

section \<open>The claim about the path resolver\<close>

text \<open>
  Claim C6, as the code has it. \<^verbatim>\<open>resolvePath\<close> returns \<^verbatim>\<open>undefined\<close> exactly when the path,
  followed from the root through plain objects, arrives before any array at a value that has
  nothing under the rest of the path: a plain object without the next segment, a value that
  is no object while a segment is left, or \<^verbatim>\<open>undefined\<close> at the end of the path. In every
  other case it returns a sequence whose length is the number of matching leaves across all
  array branches. A segment that is absent on a plain object below an array removes that
  branch only.
\<close>

theorem resolvePath_absent_or_leaves:
  "(resolvePath obj path = JUndef \<longleftrightarrow> absent_before_array obj (split_on CHR ''.'' path))
   \<and> (\<not> absent_before_array obj (split_on CHR ''.'' path) \<longrightarrow>
        (\<exists>leaves. resolvePath obj path = JArr leaves
                \<and> length leaves = count_leaves obj (split_on CHR ''.'' path)))"
proof (intro conjI impI)
  show "resolvePath obj path = JUndef \<longleftrightarrow> absent_before_array obj (split_on CHR ''.'' path)"
    unfolding resolvePath_def by (rule traverse_undef_iff)
next
  assume "\<not> absent_before_array obj (split_on CHR ''.'' path)"
  then have "traverse obj (split_on CHR ''.'' path) \<noteq> JUndef"
    by (simp only: traverse_undef_iff not_False_eq_True)
  then obtain leaves where l: "traverse obj (split_on CHR ''.'' path) = JArr leaves"
    using traverse_result[of obj "split_on CHR ''.'' path"] by auto
  have "out_len (traverse obj (split_on CHR ''.'' path)) = count_leaves obj (split_on CHR ''.'' path)"
    by (rule traverse_count)
  then have "length leaves = count_leaves obj (split_on CHR ''.'' path)"
    by (simp add: l out_len_def)
  then show "\<exists>leaves. resolvePath obj path = JArr leaves
                \<and> length leaves = count_leaves obj (split_on CHR ''.'' path)"
    using l by (simp add: resolvePath_def)
qed

text \<open>A path whose first segment is missing on the root object, and a path with three leaves
  under an array of which one element lacks the key.\<close>

theorem resolvePath_absent_or_leaves_witness:
  "absent_before_array nested_example (split_on CHR ''.'' ''x.b'')
   \<and> resolvePath nested_example ''x.b'' = JUndef
   \<and> \<not> absent_before_array nested_example (split_on CHR ''.'' ''a.b'')
   \<and> resolvePath nested_example ''a.b'' = JArr [JNum 1, JNum 2, JNum 3]
   \<and> count_leaves nested_example (split_on CHR ''.'' ''a.b'') = 3"
  using resolvePath_absent_or_leaves[of nested_example "''x.b''"]
    resolvePath_absent_or_leaves[of nested_example "''a.b''"]
  by (simp add: split_examples nested_example_def resolvePath_def flat_def)

text \<open>
  The claim as the specification states it fails below an array: in the document
  \<^verbatim>\<open>{a: [{c: 1}]}\<close> the segment \<^verbatim>\<open>b\<close> of the path \<^verbatim>\<open>a.b\<close> is absent on the plain object
  \<^verbatim>\<open>{c: 1}\<close>, and the resolver returns the empty sequence, not \<^verbatim>\<open>undefined\<close>.
\<close>

theorem resolvePath_absent_below_array_counterexample:
  "absent_on_object (JObj [(''a'', JArr [JObj [(''c'', JNum 1)]])]) (split_on CHR ''.'' ''a.b'')
   \<and> hasOwn (JObj [(''c'', JNum 1)]) ''b'' = Inr False
   \<and> resolvePath (JObj [(''a'', JArr [JObj [(''c'', JNum 1)]])]) ''a.b'' = JArr []"
  by (simp add: split_examples resolvePath_def flat_def)

section \<open>The claims about the flattener\<close>

text \<open>
  Claim C5, as the code has it. When the flattening of a document raises no exception, a
  cryptographic-asset component whose \<^verbatim>\<open>evidence.occurrences\<close> is an array of K \<ge> 1
  occurrences yields exactly K detections, in the order of the occurrences, and no others come
  from it. Detection j is a new object: the JSON copy of the component, in which
  \<^verbatim>\<open>evidence.occurrences\<close> is the one-element list of occurrence j and every other property
  of the copy and of its evidence is as the JSON copy has it. The JSON copy is the component
  itself where the component holds only values that a JSON text holds exactly. An assignment
  to a property of such a detection changes that detection and nothing else: the document,
  the live detections and therefore every other detection stay as they are. A component
  without an occurrences array (no evidence, no \<^verbatim>\<open>occurrences\<close> in it, or one that is not an
  array) yields exactly one detection, the component object itself.
\<close>

theorem flattener_per_component:
  assumes "detections_try cbom = Inr ds"
    and "hasOwn cbom ''components'' = Inr True" and "isArray (fld cbom ''components'')"
    and "i < length (components_of cbom)" and "components_of cbom ! i = c"
    and "is_asset c"
  shows "(has_occurrences c = Inr True \<and> occurrences_of c \<noteq> [] \<longrightarrow>
            filter (\<lambda>d. origin d = Some i) ds =
              map (\<lambda>j. Copied (with_single_context (clone c) (occurrences_of c ! j)) i j)
                [0..<length (occurrences_of c)]
          \<and> (json_exact c \<longrightarrow> clone c = c)
          \<and> (\<forall>occ k.
                fld (fld (with_single_context (clone c) occ) ''evidence'') ''occurrences'' = JArr [occ]
              \<and> (k \<noteq> ''evidence'' \<longrightarrow> fld (with_single_context (clone c) occ) k = fld (clone c) k)
              \<and> (k \<noteq> ''occurrences'' \<longrightarrow>
                   fld (fld (with_single_context (clone c) occ) ''evidence'') k
                     = fld (fld (clone c) ''evidence'') k))
          \<and> (\<forall>d \<in> set (filter (\<lambda>d. origin d = Some i) ds). \<forall>k x. \<forall>m :: model.
                snd (assign_detection d k x m) = m
              \<and> detection_value m (fst (assign_detection d k x m)) = assign (detection_value m d) k x))
       \<and> (has_occurrences c = Inr False \<longrightarrow>
            filter (\<lambda>d. origin d = Some i) ds = [Shared i]
          \<and> (\<forall>m :: model. m_cbom m = cbom \<longrightarrow> detection_value m (Shared i) = c))"
proof (intro conjI impI allI ballI)
  have f: "filter (\<lambda>d. origin d = Some i) ds = dets_of i c"
    using detections_of_component(1)[OF assms(1-4)] assms(5) by simp
  {
    assume h: "has_occurrences c = Inr True \<and> occurrences_of c \<noteq> []"
    then have t: "has_occurrences c = Inr True" by simp
    show e: "filter (\<lambda>d. origin d = Some i) ds =
              map (\<lambda>j. Copied (with_single_context (clone c) (occurrences_of c ! j)) i j)
                [0..<length (occurrences_of c)]"
      unfolding f dets_of_def comp_asset_occ[OF assms(6) t] by simp
    show "clone c = c" if "json_exact c" using that by (rule clone_id)
    fix occ k
    show "fld (fld (with_single_context (clone c) occ) ''evidence'') ''occurrences'' = JArr [occ]"
      using assms(6) t by (rule with_single_context_clone_fields(2))
    show "fld (with_single_context (clone c) occ) k = fld (clone c) k" if "k \<noteq> ''evidence''"
      using assms(6) t that by (rule with_single_context_clone_fields(1))
    show "fld (fld (with_single_context (clone c) occ) ''evidence'') k = fld (fld (clone c) ''evidence'') k"
      if "k \<noteq> ''occurrences''"
      using assms(6) t that by (rule with_single_context_clone_fields(3))
    fix d x and m :: model
    assume "d \<in> set (filter (\<lambda>d. origin d = Some i) ds)"
    then obtain j where d: "d = Copied (with_single_context (clone c) (occurrences_of c ! j)) i j"
      unfolding e by auto
    show "snd (assign_detection d k x m) = m"
      unfolding d by (simp add: assign_detection_Copied)
    show "detection_value m (fst (assign_detection d k x m)) = assign (detection_value m d) k x"
      unfolding d by (simp add: assign_detection_Copied)
  }
  {
    assume h: "has_occurrences c = Inr False"
    show "filter (\<lambda>d. origin d = Some i) ds = [Shared i]"
      unfolding f dets_of_def comp_asset_none[OF assms(6) h] by simp
    fix m :: model assume "m_cbom m = cbom"
    then show "detection_value m (Shared i) = c"
      using assms(4,5) by (simp add: nth_or_undef_def)
  }
qed

text \<open>
  The theorem on a document with a component of two occurrences and a component without
  evidence.
\<close>

theorem flattener_per_component_witness:
  "detections_try example_cbom =
     Inr [Copied (with_single_context example_r1 example_occ1) 0 0,
          Copied (with_single_context example_r1 example_occ2) 0 1,
          Shared 1]
   \<and> is_asset example_r1 \<and> json_exact example_r1 \<and> has_occurrences example_r1 = Inr True
   \<and> occurrences_of example_r1 = [example_occ1, example_occ2]
   \<and> filter (\<lambda>d. origin d = Some 0)
        [Copied (with_single_context example_r1 example_occ1) 0 0,
         Copied (with_single_context example_r1 example_occ2) 0 1,
         Shared 1]
       = [Copied (with_single_context example_r1 example_occ1) 0 0,
          Copied (with_single_context example_r1 example_occ2) 0 1]
   \<and> fld (fld (with_single_context example_r1 example_occ2) ''evidence'') ''occurrences''
       = JArr [example_occ2]
   \<and> fld (with_single_context example_r1 example_occ2) ''bom-ref'' = JStr ''r1''
   \<and> snd (assign_detection (Copied (with_single_context example_r1 example_occ2) 0 1)
             ''name'' (JStr ''other'') (loaded example_cbom)) = loaded example_cbom
   \<and> is_asset example_r2 \<and> has_occurrences example_r2 = Inr False
   \<and> filter (\<lambda>d. origin d = Some 1)
        [Copied (with_single_context example_r1 example_occ1) 0 0,
         Copied (with_single_context example_r1 example_occ2) 0 1,
         Shared 1]
       = [Shared 1]
   \<and> detection_value (loaded example_cbom) (Shared 1) = example_r2"
proof -
  note a = flattener_per_component[OF example_detections example_cbom_facts(1,2), of 0 example_r1]
  note b = flattener_per_component[OF example_detections example_cbom_facts(1,2), of 1 example_r2]
  have l: "m_cbom (loaded example_cbom) = example_cbom" by (simp add: loaded_def)
  have r: "fld example_r1 ''bom-ref'' = JStr ''r1''" by (simp add: example_r1_def)
  have cl: "clone example_r1 = example_r1"
    using a by (simp add: example_r1_facts example_cbom_facts)
  have a': "filter (\<lambda>d. origin d = Some 0)
        [Copied (with_single_context example_r1 example_occ1) 0 0,
         Copied (with_single_context example_r1 example_occ2) 0 1,
         Shared 1]
       = [Copied (with_single_context example_r1 example_occ1) 0 0,
          Copied (with_single_context example_r1 example_occ2) 0 1]"
    "fld (fld (with_single_context example_r1 example_occ2) ''evidence'') ''occurrences''
       = JArr [example_occ2]"
    "fld (with_single_context example_r1 example_occ2) ''bom-ref'' = fld example_r1 ''bom-ref''"
    "snd (assign_detection (Copied (with_single_context example_r1 example_occ2) 0 1)
             ''name'' (JStr ''other'') (loaded example_cbom)) = loaded example_cbom"
    using a unfolding cl
    by (simp_all add: example_r1_facts example_cbom_facts upt_rec[of 0] upt_rec[of 1])
  have b': "filter (\<lambda>d. origin d = Some 1)
        [Copied (with_single_context example_r1 example_occ1) 0 0,
         Copied (with_single_context example_r1 example_occ2) 0 1,
         Shared 1]
       = [Shared 1]" "\<forall>m :: model. m_cbom m = example_cbom \<longrightarrow> detection_value m (Shared 1) = example_r2"
    using b by (simp_all add: example_r2_facts example_cbom_facts)
  show ?thesis
    using a' b'(1) b'(2)[rule_format, OF l] r
    by (simp only: example_detections example_r1_facts example_r2_facts simp_thms)
qed

text \<open>
  The claim as the specification states it fails in four ways. In a document whose second
  component is \<^verbatim>\<open>null\<close>, the first component is a cryptographic asset with two occurrences
  and the flattener emits no detection at all: \<^verbatim>\<open>Object.hasOwn(null, "type")\<close> raises, the
  \<^verbatim>\<open>catch\<close> block records the error and returns the empty list. The detection of a
  component whose key size is \<^verbatim>\<open>Infinity\<close> holds \<^verbatim>\<open>null\<close> there, so it is not
  content-identical to its source. The occurrence that a detection carries is the occurrence
  object of the document: after an assignment to its line through the first detection of the
  example document, the document holds the new line. And a cryptographic asset whose list of
  occurrences is empty has zero occurrences and yields no detection.
\<close>

theorem flattener_per_component_counterexample:
  "is_asset (components_of example_null_sibling ! 0)
   \<and> length (occurrences_of (components_of example_null_sibling ! 0)) = 2
   \<and> getDetectionsFromCbom example_null_sibling (loaded example_null_sibling)
       = ([], addError JsonParsing (console_log ErrorParsingJSON (loaded example_null_sibling)))
   \<and> is_asset example_heavy \<and> occurrences_of example_heavy = [example_occ1]
   \<and> fld example_heavy ''keySize'' = JInfinity True
   \<and> getDetectionsFromCbom example_heavy_cbom (loaded example_heavy_cbom)
       = ([Copied (with_single_context (clone example_heavy) example_occ1) 0 0],
          loaded example_heavy_cbom)
   \<and> fld (with_single_context (clone example_heavy) example_occ1) ''keySize'' = JNull
   \<and> getDetectionsFromCbom example_cbom (loaded example_cbom)
       = ([Copied (with_single_context example_r1 example_occ1) 0 0,
           Copied (with_single_context example_r1 example_occ2) 0 1, Shared 1],
          loaded example_cbom)
   \<and> fld (nth_or_undef (occurrences_of (nth_or_undef
         (components_of (m_cbom (loaded example_cbom))) 0)) 0) ''line'' = JNum 10
   \<and> fld (nth_or_undef (occurrences_of (nth_or_undef (components_of (m_cbom
         (snd (assign_occurrence (Copied (with_single_context example_r1 example_occ1) 0 0)
                 ''line'' (JNum 99) (loaded example_cbom))))) 0)) 0) ''line'' = JNum 99
   \<and> is_asset example_unseen \<and> occurrences_of example_unseen = []
   \<and> getDetectionsFromCbom example_unseen_cbom (loaded example_unseen_cbom)
       = ([], loaded example_unseen_cbom)"
proof -
  have c: "components_of example_null_sibling = [example_r1, JNull]"
    by (simp add: example_null_sibling_def components_of_def)
  have n: "component_detections i JNull = Inl TypeError" for i
    by (simp add: component_detections_def)
  have "flatten_components 0 [example_r1, JNull] = Inl TypeError"
    by (simp add: comp_asset_occ[OF example_r1_facts(1,2)] n)
  moreover have "hasOwn example_null_sibling ''components'' = Inr True"
    "isArray (fld example_null_sibling ''components'')"
    "example_null_sibling \<noteq> JUndef" "example_null_sibling \<noteq> JNull"
    by (simp_all add: example_null_sibling_def)
  ultimately have "detections_try example_null_sibling = Inl TypeError"
    unfolding detections_try_def by (simp add: c)
  then have a: "is_asset (components_of example_null_sibling ! 0)
   \<and> length (occurrences_of (components_of example_null_sibling ! 0)) = 2
   \<and> getDetectionsFromCbom example_null_sibling (loaded example_null_sibling)
       = ([], addError JsonParsing (console_log ErrorParsingJSON (loaded example_null_sibling)))"
    by (simp add: c example_r1_facts getDetectionsFromCbom_def)
  have b: "getDetectionsFromCbom example_heavy_cbom (loaded example_heavy_cbom)
       = ([Copied (with_single_context (clone example_heavy) example_occ1) 0 0],
          loaded example_heavy_cbom)"
    "getDetectionsFromCbom example_cbom (loaded example_cbom)
       = ([Copied (with_single_context example_r1 example_occ1) 0 0,
           Copied (with_single_context example_r1 example_occ2) 0 1, Shared 1],
          loaded example_cbom)"
    "getDetectionsFromCbom example_unseen_cbom (loaded example_unseen_cbom)
       = ([], loaded example_unseen_cbom)"
    by (simp_all only: getDetectionsFromCbom_def example_heavy_detections example_detections
        example_unseen_detections sum.case)
  show ?thesis
    using a b example_heavy_facts(1,3,4) example_heavy_copy example_shared_occurrence
      example_unseen_facts(1,3)
    by (simp only: simp_thms)
qed

text \<open>
  Claim C9, as the code has it. When the flattening raises no exception, the one detection
  that the flattener emits for a cryptographic-asset component without an occurrences array
  (the branch commented \<^verbatim>\<open>The component has no occurence\<close>) is \<open>Shared i\<close>: the component
  object \<^verbatim>\<open>cbom.components[i]\<close> of the document itself, not a copy. Consequently, when no
  scan is running and \<^verbatim>\<open>getDetections\<close> returns, the returned detection still is that
  component, and when the name of the component is a string that contains \<^verbatim>\<open>@\<close>, the
  component of the loaded document is left with the name cut at the first \<^verbatim>\<open>@\<close>. While a
  scan is running, and when the flattening raises, \<^verbatim>\<open>getDetections\<close> leaves the loaded
  document as it is.
\<close>

theorem zero_occurrence_detection_is_shared:
  "(has_components cbom \<and> detections_try cbom = Inr ds \<and> i < length (components_of cbom)
      \<and> is_asset (components_of cbom ! i) \<and> has_occurrences (components_of cbom ! i) = Inr False
     \<longrightarrow> filter (\<lambda>d. origin d = Some i) ds = [Shared i]
         \<and> (\<forall>m :: model. m_cbom m = cbom \<longrightarrow> detection_value m (Shared i) = components_of cbom ! i))
   \<and> (\<not> m_isScanning m \<and> has_components (m_cbom m) \<and> detections_try (m_cbom m) = Inr ds0
      \<and> getDetections m = (Inr ds', m')
      \<and> j < length (components_of (m_cbom m)) \<and> is_asset (components_of (m_cbom m) ! j)
      \<and> has_occurrences (components_of (m_cbom m) ! j) = Inr False
     \<longrightarrow> Shared j \<in> set ds'
         \<and> detection_value m' (Shared j) = components_of (m_cbom m') ! j
         \<and> (\<forall>s. fld (components_of (m_cbom m) ! j) ''name'' = JStr s \<and> CHR ''@'' \<in> set s \<longrightarrow>
               fld (components_of (m_cbom m') ! j) ''name'' = JStr (takeWhile (\<lambda>ch. ch \<noteq> CHR ''@'') s)))
   \<and> (m_isScanning m \<longrightarrow> m_cbom (snd (getDetections m)) = m_cbom m)
   \<and> (detections_try (m_cbom m) = Inl e \<longrightarrow> m_cbom (snd (getDetections m)) = m_cbom m)"
proof -
  have p1: "filter (\<lambda>d. origin d = Some i) ds = [Shared i]
         \<and> (\<forall>m :: model. m_cbom m = cbom \<longrightarrow> detection_value m (Shared i) = components_of cbom ! i)"
   if a: "has_components cbom \<and> detections_try cbom = Inr ds \<and> i < length (components_of cbom)
      \<and> is_asset (components_of cbom ! i) \<and> has_occurrences (components_of cbom ! i) = Inr False"
  proof -
  from a have hc: "hasOwn cbom ''components'' = Inr True" "isArray (fld cbom ''components'')"
    by (simp_all add: has_components_def)
  have "filter (\<lambda>d. origin d = Some i) ds = [Shared i]"
    using detections_of_component(1)[OF _ hc, of ds i] a
      comp_asset_none[of "components_of cbom ! i" i] by (simp add: dets_of_def)
  moreover have "\<forall>m :: model. m_cbom m = cbom \<longrightarrow> detection_value m (Shared i) = components_of cbom ! i"
    using a by (simp add: nth_or_undef_def)
  ultimately show ?thesis
    by simp
  qed
  let ?c = "components_of (m_cbom m) ! j"
  have p2: "Shared j \<in> set ds'
         \<and> detection_value m' (Shared j) = components_of (m_cbom m') ! j
         \<and> (\<forall>s. fld ?c ''name'' = JStr s \<and> CHR ''@'' \<in> set s \<longrightarrow>
               fld (components_of (m_cbom m') ! j) ''name'' = JStr (takeWhile (\<lambda>ch. ch \<noteq> CHR ''@'') s))"
   if a: "\<not> m_isScanning m \<and> has_components (m_cbom m) \<and> detections_try (m_cbom m) = Inr ds0
      \<and> getDetections m = (Inr ds', m')
      \<and> j < length (components_of (m_cbom m)) \<and> is_asset ?c \<and> has_occurrences ?c = Inr False"
  proof -
  from a have hc: "hasOwn (m_cbom m) ''components'' = Inr True" "isArray (fld (m_cbom m) ''components'')"
    by (simp_all add: has_components_def)
  have f: "filter (\<lambda>d. origin d = Some j) ds0 = [Shared j]"
    using detections_of_component(1)[OF _ hc, of ds0 j] a
      comp_asset_none[of ?c j] by (simp add: dets_of_def)
  have "Shared j \<in> set (filter (\<lambda>d. origin d = Some j) ds0)" unfolding f by simp
  then have mem: "Shared j \<in> set ds0" by simp
  have r: "removeBomRefFromDetectionNames ds0 m = (Inr ds', m')"
    using getDetections_not_scanning[of m ds0] a by simp
  have hcm: "has_components (m_cbom m)" using a by simp
  note eff = strip_effect[OF r hcm]
  have mem': "Shared j \<in> set ds'" using eff mem by blast
  have len: "j < length (components_of (m_cbom m'))" using eff a by simp
  have c': "components_of (m_cbom m') ! j = renamed ?c"
    using eff a mem by simp
  have v: "detection_value m' (Shared j) = components_of (m_cbom m') ! j"
    using len by (simp add: nth_or_undef_def)
  have name: "fld (components_of (m_cbom m') ! j) ''name'' = JStr (takeWhile (\<lambda>ch. ch \<noteq> CHR ''@'') s)"
    if s: "fld ?c ''name'' = JStr s \<and> CHR ''@'' \<in> set s" for s
  proof -
    obtain kvs where k: "?c = JObj kvs" using is_asset_obj[of ?c] a by blast
    have h: "hasOwn ?c ''name'' = Inr True" using s unfolding k by (intro fld_string_hasOwn) simp
    have "fld (renamed ?c) ''name'' = JStr (takeWhile (\<lambda>ch. ch \<noteq> CHR ''@'') s)"
      using h s by (intro renamed_name) simp_all
    then show ?thesis using c' by simp
  qed
  show ?thesis
    using mem' v name by blast
  qed
  have p3: "m_cbom (snd (getDetections m)) = m_cbom m" if "m_isScanning m"
    using that by (rule getDetections_scanning_cbom)
  have p4: "m_cbom (snd (getDetections m)) = m_cbom m" if "detections_try (m_cbom m) = Inl e"
    using that by (rule getDetections_raised_cbom)
  show ?thesis
    using p1 p2 p3 p4 by blast
qed

text \<open>
  The theorem on the example document: its second component, without evidence, is named
  \<^verbatim>\<open>AES@r2\<close>; after \<^verbatim>\<open>getDetections\<close> the document holds it with the name \<^verbatim>\<open>AES\<close>. While
  a scan is running the document is not touched.
\<close>

theorem zero_occurrence_detection_is_shared_witness:
  "\<not> m_isScanning (loaded example_cbom) \<and> has_components (m_cbom (loaded example_cbom))
   \<and> components_of (m_cbom (loaded example_cbom)) ! 1 = example_r2
   \<and> is_asset example_r2 \<and> has_occurrences example_r2 = Inr False
   \<and> fld example_r2 ''name'' = JStr ''AES@r2''
   \<and> detections_try example_cbom =
       Inr [Copied (with_single_context example_r1 example_occ1) 0 0,
            Copied (with_single_context example_r1 example_occ2) 0 1, Shared 1]
   \<and> filter (\<lambda>d. origin d = Some 1)
        [Copied (with_single_context example_r1 example_occ1) 0 0,
         Copied (with_single_context example_r1 example_occ2) 0 1, Shared 1] = [Shared 1]
   \<and> getDetections (loaded example_cbom) =
     (Inr [Copied (assign (with_single_context example_r1 example_occ1) ''name'' (JStr ''key'')) 0 0,
           Copied (assign (with_single_context example_r1 example_occ2) ''name'' (JStr ''key'')) 0 1,
           Shared 1],
      example_stripped)
   \<and> fld (components_of (m_cbom example_stripped) ! 1) ''name'' = JStr ''AES''
   \<and> detection_value example_stripped (Shared 1) = components_of (m_cbom example_stripped) ! 1
   \<and> m_isScanning example_scanning
   \<and> m_cbom (snd (getDetections example_scanning)) = m_cbom example_scanning"
proof -
  have l: "\<not> m_isScanning (loaded example_cbom)" "m_cbom (loaded example_cbom) = example_cbom"
    by (simp_all add: loaded_def)
  have sc: "m_isScanning example_scanning" by (simp add: example_scanning_def)
  have d: "detections_try (m_cbom (loaded example_cbom)) =
     Inr [Copied (with_single_context example_r1 example_occ1) 0 0,
          Copied (with_single_context example_r1 example_occ2) 0 1,
          Shared 1]"
    unfolding l by (rule example_detections)
  have hc: "has_components (m_cbom (loaded example_cbom))"
    unfolding l by (rule example_has_components)
  have i: "1 < length (components_of (m_cbom (loaded example_cbom)))"
    "components_of (m_cbom (loaded example_cbom)) ! 1 = example_r2"
    unfolding l by (simp_all add: example_cbom_facts)
  have n: "fld example_r2 ''name'' = JStr ''AES@r2'' \<and> CHR ''@'' \<in> set ''AES@r2''"
    by (simp add: example_r2_def)
  note t = zero_occurrence_detection_is_shared[of example_cbom
      "[Copied (with_single_context example_r1 example_occ1) 0 0,
        Copied (with_single_context example_r1 example_occ2) 0 1, Shared 1]" 1
      "loaded example_cbom"
      "[Copied (with_single_context example_r1 example_occ1) 0 0,
        Copied (with_single_context example_r1 example_occ2) 0 1, Shared 1]"
      "[Copied (assign (with_single_context example_r1 example_occ1) ''name'' (JStr ''key'')) 0 0,
        Copied (assign (with_single_context example_r1 example_occ2) ''name'' (JStr ''key'')) 0 1,
        Shared 1]" example_stripped 1]
  note t2 = zero_occurrence_detection_is_shared[of _ _ _ example_scanning]
  have p1: "filter (\<lambda>d. origin d = Some 1)
        [Copied (with_single_context example_r1 example_occ1) 0 0,
         Copied (with_single_context example_r1 example_occ2) 0 1, Shared 1] = [Shared 1]"
    using t hc i example_r2_facts(1,2) example_detections unfolding l by simp
  have p2: "fld (components_of (m_cbom example_stripped) ! 1) ''name'' = JStr (takeWhile (\<lambda>ch. ch \<noteq> CHR ''@'') ''AES@r2'')
     \<and> detection_value example_stripped (Shared 1) = components_of (m_cbom example_stripped) ! 1"
    using t l(1) hc d example_getDetections i example_r2_facts(1,2) n by simp
  have p3: "m_cbom (snd (getDetections example_scanning)) = m_cbom example_scanning"
    using t2 sc by blast
  show ?thesis
    using l(1) hc i(2) n example_r2_facts(1,2) example_getDetections example_detections p1 p2 p3 sc
    by simp
qed

text \<open>
  The claim as the specification states it fails in two ways. A cryptographic asset whose
  list of occurrences is empty has zero occurrences, no detection is emitted for it, and
  \<^verbatim>\<open>getDetections\<close> leaves its name \<^verbatim>\<open>RSA@r4\<close> in the document. And while a scan is
  running, \<^verbatim>\<open>getDetections\<close> returns the live detections and leaves the name \<^verbatim>\<open>AES@r2\<close>
  of the component without evidence in the document.
\<close>

theorem zero_occurrence_detection_counterexample:
  "is_asset example_unseen \<and> occurrences_of example_unseen = []
   \<and> fld example_unseen ''name'' = JStr ''RSA@r4''
   \<and> components_of example_unseen_cbom = [example_unseen]
   \<and> getDetectionsFromCbom example_unseen_cbom (loaded example_unseen_cbom)
       = ([], loaded example_unseen_cbom)
   \<and> getDetections (loaded example_unseen_cbom) = (Inr [], loaded example_unseen_cbom)
   \<and> m_cbom (loaded example_unseen_cbom) = example_unseen_cbom
   \<and> components_of (m_cbom example_scanning) ! 1 = example_r2
   \<and> is_asset example_r2 \<and> has_occurrences example_r2 = Inr False
   \<and> fld example_r2 ''name'' = JStr ''AES@r2''
   \<and> getDetections example_scanning = (Inr [], example_scanning)"
proof -
  have "getDetectionsFromCbom example_unseen_cbom (loaded example_unseen_cbom)
       = ([], loaded example_unseen_cbom)"
    by (simp only: getDetectionsFromCbom_def example_unseen_detections sum.case)
  moreover have "m_cbom (loaded example_unseen_cbom) = example_unseen_cbom"
    by (simp add: loaded_def)
  moreover have "components_of (m_cbom example_scanning) ! 1 = example_r2"
    by (simp add: example_scanning_def loaded_def example_cbom_facts)
  moreover have "fld example_r2 ''name'' = JStr ''AES@r2''" by (simp add: example_r2_def)
  ultimately show ?thesis
    using example_unseen_facts(1,3,4,5) example_unseen_getDetections example_r2_facts(1,2)
      example_scanning_getDetections
    by (simp only: simp_thms)
qed

section \<open>The claims about the dependency index\<close>

text \<open>
  Claim C4. After a run of \<^verbatim>\<open>setDependenciesMap\<close> that completes, the index is symmetric:
  an edge to B with origin path P stands in the depends list of A exactly when the edge to A
  with the same path stands in the is-depended-on list of B, and as many times; the same
  holds for provides and is-provided-by. In particular every reference that the resolver
  finds under one of the reference-bearing paths of a detection with a \<^verbatim>\<open>bom-ref\<close> is
  recorded as a depends edge of that \<^verbatim>\<open>bom-ref\<close> and mirrored.
\<close>

theorem dependency_index_symmetric:
  assumes "setDependenciesMap cbom m = (Inr (), m')"
  shows "\<exists>idx ds m1. m_dependencies m' = Some idx \<and> getDetections m = (Inr ds, m1)
     \<and> (\<forall>A B P. (B, P) \<in> set (edges_of (dependsMap idx) A)
                 \<longleftrightarrow> (A, P) \<in> set (edges_of (isDependedOnMap idx) B))
     \<and> (\<forall>A B P. (B, P) \<in> set (edges_of (providesMap idx) A)
                 \<longleftrightarrow> (A, P) \<in> set (edges_of (isProvidedByMap idx) B))
     \<and> (\<forall>A B P. count_list (edges_of (dependsMap idx) A) (B, P)
                 = count_list (edges_of (isDependedOnMap idx) B) (A, P))
     \<and> (\<forall>A B P. count_list (edges_of (providesMap idx) A) (B, P)
                 = count_list (edges_of (isProvidedByMap idx) B) (A, P))
     \<and> (\<forall>det \<in> set ds. \<forall>path \<in> set dependencyPaths.
           \<forall>ref \<in> set (elems (resolvePath (detection_value m1 det) path)).
             hasOwn (detection_value m1 det) ''bom-ref'' = Inr True \<longrightarrow>
               (ref, path) \<in> set (edges_of (dependsMap idx) (fld (detection_value m1 det) ''bom-ref''))
             \<and> (fld (detection_value m1 det) ''bom-ref'', path)
                   \<in> set (edges_of (isDependedOnMap idx) ref))"
proof -
  obtain idx ds m1 where i: "m_dependencies m' = Some idx" and g: "getDetections m = (Inr ds, m1)"
    and s: "symmetric_index idx"
    and c: "\<And>A B P. P \<in> set dependencyPaths \<Longrightarrow>
                 cnt_dep idx A B P = sum_list (map (\<lambda>det. contrib (detection_value m1 det) A B P) ds)"
    using index_after_build[OF assms] by blast
  have cd: "count_list (edges_of (dependsMap idx) A) (B, P)
                 = count_list (edges_of (isDependedOnMap idx) B) (A, P)" for A B P
    using s by (simp add: symmetric_index_def cnt_dep_def cnt_idep_def)
  have cp: "count_list (edges_of (providesMap idx) A) (B, P)
                 = count_list (edges_of (isProvidedByMap idx) B) (A, P)" for A B P
    using s by (simp add: symmetric_index_def cnt_prov_def cnt_iprov_def)
  have md: "(B, P) \<in> set (edges_of (dependsMap idx) A)
                 \<longleftrightarrow> (A, P) \<in> set (edges_of (isDependedOnMap idx) B)" for A B P
    by (simp only: mem_count cd)
  have mp: "(B, P) \<in> set (edges_of (providesMap idx) A)
                 \<longleftrightarrow> (A, P) \<in> set (edges_of (isProvidedByMap idx) B)" for A B P
    by (simp only: mem_count cp)
  have imp: "(ref, path) \<in> set (edges_of (dependsMap idx) (fld (detection_value m1 det) ''bom-ref''))
             \<and> (fld (detection_value m1 det) ''bom-ref'', path)
                   \<in> set (edges_of (isDependedOnMap idx) ref)"
    if d: "det \<in> set ds" and p: "path \<in> set dependencyPaths"
      and r: "ref \<in> set (elems (resolvePath (detection_value m1 det) path))"
      and h: "hasOwn (detection_value m1 det) ''bom-ref'' = Inr True" for det path ref
  proof -
    let ?A = "fld (detection_value m1 det) ''bom-ref''"
    have "0 < count_list (elems (resolvePath (detection_value m1 det) path)) ref"
      using r by (simp only: mem_count)
    moreover have "count_list dependencyPaths path = 1"
      using dependencyPaths_distinct p by (rule count_in_distinct)
    ultimately have "0 < contrib (detection_value m1 det) ?A ref path"
      using h by (simp add: contrib_def)
    moreover have "contrib (detection_value m1 det) ?A ref path
        \<le> sum_list (map (\<lambda>det. contrib (detection_value m1 det) ?A ref path) ds)"
      using d by (rule elem_le_sum_list)
    ultimately have "0 < cnt_dep idx ?A ref path"
      using c[OF p, of ?A ref] by simp
    then have "(ref, path) \<in> set (edges_of (dependsMap idx) ?A)"
      by (simp add: mem_count cnt_dep_def)
    then show ?thesis using md by blast
  qed
  show ?thesis
    using i g md mp cd cp imp by blast
qed

text \<open>
  The scenario of the specification: a component \<^verbatim>\<open>r1\<close> whose
  \<^verbatim>\<open>cryptoProperties.relatedCryptoMaterialProperties.algorithmRef\<close> is \<^verbatim>\<open>r2\<close>, and a
  component \<^verbatim>\<open>r2\<close>. The depends list of \<^verbatim>\<open>r1\<close> is the one edge to \<^verbatim>\<open>r2\<close>, and the
  theorem gives its mirror.
\<close>

theorem dependency_index_symmetric_witness:
  "setDependenciesMap example_scenario (loaded example_scenario) =
     (Inr (), (loaded example_scenario)\<lparr>m_dependencies := Some example_scenario_index\<rparr>)
   \<and> edges_of (dependsMap example_scenario_index) (JStr ''r1'') =
       [(JStr ''r2'', ''cryptoProperties.relatedCryptoMaterialProperties.algorithmRef'')]
   \<and> (JStr ''r1'', ''cryptoProperties.relatedCryptoMaterialProperties.algorithmRef'')
       \<in> set (edges_of (isDependedOnMap example_scenario_index) (JStr ''r2''))"
proof -
  obtain idx where i: "m_dependencies ((loaded example_scenario)\<lparr>m_dependencies := Some example_scenario_index\<rparr>) = Some idx"
    and s: "\<And>A B P. (B, P) \<in> set (edges_of (dependsMap idx) A)
                 \<longleftrightarrow> (A, P) \<in> set (edges_of (isDependedOnMap idx) B)"
    using dependency_index_symmetric[OF example_scenario_build] by blast
  have idx: "idx = example_scenario_index" using i by simp
  have e: "edges_of (dependsMap example_scenario_index) (JStr ''r1'') =
       [(JStr ''r2'', ''cryptoProperties.relatedCryptoMaterialProperties.algorithmRef'')]"
    by (simp add: example_scenario_index_def edges_of_def)
  have "(JStr ''r2'', ''cryptoProperties.relatedCryptoMaterialProperties.algorithmRef'')
       \<in> set (edges_of (dependsMap idx) (JStr ''r1''))"
    unfolding idx e by simp
  then have "(JStr ''r1'', ''cryptoProperties.relatedCryptoMaterialProperties.algorithmRef'')
       \<in> set (edges_of (isDependedOnMap idx) (JStr ''r2''))"
    by (simp only: s)
  then show ?thesis using example_scenario_build e idx by simp
qed





end
